theory Spec2Isabelle
  imports Main
begin

section \<open>The crawl-orchestration engine of the website scanner\<close>

text \<open>
  The component \<open>App\<close> keeps the crawl frontier (two insertion-ordered \<open>Map\<close>s, of links and
  of assets), the transcript and a few flags as React state, and drives the collaborators
  (\<open>scanPage\<close>, the analyzers, the chat session) from its handlers. The handlers are embedded
  as functions on an explicit state record; every functional state update
  \<open>setX(prev => ...)\<close> becomes a function on the previous value, and a value a handler reads
  from its closure is read from the state the handler is called in.

  Each handler is given twice. Run alone, from its call to its end, it is a function
  from state to state (\<open>handleInitialScan\<close>, \<open>handleFunctionCallResponse\<close>, \<open>handleFullScan\<close>,
  ...). Since a handler gives way at every \<open>await\<close>, the scanning handlers are also cut at
  their awaits into steps that can be interleaved (\<open>step\<close>, \<open>run\<close>); both are built from
  the same pieces, and the handler run alone is shown to be one of the interleavings.
\<close>

subsection \<open>JavaScript's \<open>Map\<close>: an association list in insertion order\<close>

text \<open>
  A \<open>Map\<close> iterates in insertion order and \<open>set\<close> on a key that is present keeps the key's
  position. \<open>new Map(prev).set(k, v)\<close> is \<open>map_put k v prev\<close>.
\<close>

type_synonym ('k, 'v) jsmap = "('k \<times> 'v) list"

fun map_get :: "('k, 'v) jsmap \<Rightarrow> 'k \<Rightarrow> 'v option" where
  "map_get [] k = None"
| "map_get ((k', v) # m) k = (if k' = k then Some v else map_get m k)"

definition map_has :: "('k, 'v) jsmap \<Rightarrow> 'k \<Rightarrow> bool" where
  "map_has m k = (map_get m k \<noteq> None)"

fun map_put :: "'k \<Rightarrow> 'v \<Rightarrow> ('k, 'v) jsmap \<Rightarrow> ('k, 'v) jsmap" where
  "map_put k v [] = [(k, v)]"
| "map_put k v ((k', v') # m) = (if k' = k then (k, v) # m else (k', v') # map_put k v m)"

definition map_values :: "('k, 'v) jsmap \<Rightarrow> 'v list" where
  "map_values m = map snd m"

definition map_keys :: "('k, 'v) jsmap \<Rightarrow> 'k list" where
  "map_keys m = map fst m"

subsection \<open>The data model (\<open>types.ts\<close>)\<close>

datatype AppStatus = StInput | StScanning | StChat

datatype LinkStatus = Pending | Scanning | Scanned | Failed

text \<open>
  \<open>DiscoveredLink\<close> as the objects are at run time: \<open>updateLinkStatus\<close> builds a record by
  spreading \<open>prev.get(url)\<close>, which is \<open>undefined\<close> for an unknown key, so \<open>url\<close> and \<open>title\<close>
  can be missing from an object of the map although the interface declares them. The
  key \<open>status\<close> is always written.
\<close>

record DiscoveredLink =
  l_url :: "string option"
  l_status :: LinkStatus
  l_title :: "string option"
  l_textContent :: "string option"
  l_htmlContent :: "string option"

text \<open>\<open>Partial<DiscoveredLink>\<close>: \<open>None\<close> is a key the object does not have.\<close>

record LinkPatch =
  p_url :: "string option"
  p_status :: "LinkStatus option"
  p_title :: "string option"
  p_textContent :: "string option"
  p_htmlContent :: "string option"

datatype AssetType = Image | Pdf | Video

record DiscoveredAsset =
  a_url :: string
  a_type :: AssetType
  a_sourcePage :: string

type_synonym Links = "(string, DiscoveredLink) jsmap"
type_synonym Assets = "(string, DiscoveredAsset) jsmap"

subsection \<open>The frontier's update primitives\<close>

definition no_patch :: LinkPatch where
  "no_patch = \<lparr>p_url = None, p_status = None, p_title = None, p_textContent = None,
     p_htmlContent = None\<rparr>"

text \<open>A key of the later object wins in a spread; a key it lacks keeps the earlier value.\<close>

definition spread :: "'a option \<Rightarrow> 'a option \<Rightarrow> 'a option" where
  "spread old new = (case new of Some v \<Rightarrow> Some v | None \<Rightarrow> old)"

text \<open>\<open>{ ...prev.get(url)!, status, ...data }\<close>; spreading \<open>undefined\<close> adds no key.\<close>

definition merge_link :: "DiscoveredLink option \<Rightarrow> LinkStatus \<Rightarrow> LinkPatch \<Rightarrow> DiscoveredLink" where
  "merge_link old st data =
     \<lparr>l_url = spread (Option.bind old l_url) (p_url data),
      l_status = (case p_status data of Some s \<Rightarrow> s | None \<Rightarrow> st),
      l_title = spread (Option.bind old l_title) (p_title data),
      l_textContent = spread (Option.bind old l_textContent) (p_textContent data),
      l_htmlContent = spread (Option.bind old l_htmlContent) (p_htmlContent data)\<rparr>"

text \<open>
  \<open>updateLinkStatus\<close> (lines 36-38):
  \<open>setDiscoveredLinks(prev => new Map(prev).set(url, { ...prev.get(url)!, status, ...data }))\<close>.
  The \<open>!\<close> is erased at run time: nothing tests whether the key is present.
\<close>

definition updateLinkStatus :: "string \<Rightarrow> LinkStatus \<Rightarrow> LinkPatch \<Rightarrow> Links \<Rightarrow> Links" where
  "updateLinkStatus url st data prev = map_put url (merge_link (map_get prev url) st data) prev"

text \<open>The record a newly discovered link gets: \<open>{ url: linkUrl, status: 'pending', title: 'Unknown Title' }\<close>.\<close>

definition pending_link :: "string \<Rightarrow> DiscoveredLink" where
  "pending_link linkUrl =
     \<lparr>l_url = Some linkUrl, l_status = Pending, l_title = Some ''Unknown Title'',
      l_textContent = None, l_htmlContent = None\<rparr>"

text \<open>
  One discovered link (lines 156-161 and 257-262, and 112-114 on the map being built):
  \<open>if (!prev.has(linkUrl)) return new Map(prev).set(linkUrl, {...}); return prev\<close>.
\<close>

definition registerLink :: "string \<Rightarrow> Links \<Rightarrow> Links" where
  "registerLink linkUrl prev =
     (if \<not> map_has prev linkUrl then map_put linkUrl (pending_link linkUrl) prev else prev)"

text \<open>\<open>links.forEach(linkUrl => ...)\<close>: the links of a page, registered in order.\<close>

definition registerDiscoveredLinks :: "string list \<Rightarrow> Links \<Rightarrow> Links" where
  "registerDiscoveredLinks links prev = fold registerLink links prev"

text \<open>\<open>addDiscoveredAssets\<close> (lines 40-50): a copy of the map, each asset set unless its URL is there.\<close>

definition addAsset :: "DiscoveredAsset \<Rightarrow> Assets \<Rightarrow> Assets" where
  "addAsset asset newMap =
     (if \<not> map_has newMap (a_url asset) then map_put (a_url asset) asset newMap else newMap)"

definition addDiscoveredAssets :: "DiscoveredAsset list \<Rightarrow> Assets \<Rightarrow> Assets" where
  "addDiscoveredAssets assets prev = fold addAsset assets prev"

subsection \<open>The transcript and the planner's streamed reply\<close>

text \<open>
  \<open>functionCall.args\<close> is untyped; the handlers read \<open>urls\<close>, \<open>url\<close>, \<open>dataType\<close> and
  \<open>prompt\<close> from it. \<open>None\<close> is \<open>undefined\<close>.
\<close>

record Args =
  arg_urls :: "string list option"
  arg_url :: "string option"
  arg_dataType :: "string option"
  arg_prompt :: "string option"

text \<open>
  A proposed call. \<open>fc_ident\<close> is the object's identity: the transcript is filtered with
  \<open>msg.functionCall !== functionCall\<close>, a comparison of references.
\<close>

record FunctionCall =
  fc_ident :: nat
  fc_name :: "string option"
  fc_args :: "Args option"

datatype Sender = User | Bot

text \<open>
  \<open>ChatMessage\<close> without its \<open>id\<close> (a time stamp followed by a random number, which no
  handler reads). A proposal holds \<open>accumulatedFunctionCalls[0]\<close>, which is \<open>undefined\<close> for
  an empty array.
\<close>

datatype ChatMessage =
  TextMessage string Sender
| FunctionCallMessage "FunctionCall option"

text \<open>
  A chunk of the reply (\<open>GenerateContentResponse\<close>), as far as line 58-68 read it:
  \<open>candidates[0]?.content?.parts\<close>, each part's \<open>text\<close>, and the accessor \<open>functionCalls\<close>
  of type \<open>FunctionCall[] | undefined\<close>.
\<close>

record Part =
  part_text :: "string option"

record Content =
  parts :: "Part list option"

record Candidate =
  content :: "Content option"

record Chunk =
  candidates :: "Candidate list option"
  functionCalls :: "FunctionCall list option"

text \<open>What is thrown: the handlers read only \<open>e.message\<close>.\<close>

datatype JsError = JsError (err_message: "string option")

definition typeError :: JsError where
  "typeError = JsError (Some ''TypeError'')"

text \<open>
  An async generator of chunks that has ended: the chunks it yielded, and the error it
  threw after them, if it did not complete.
\<close>

record Stream =
  chunks :: "Chunk list"
  stream_error :: "JsError option"

text \<open>
  \<open>String.prototype.trim\<close> on a string of code units below 256: the white space and line
  terminators among them are TAB, LF, VT, FF, CR, SP and NBSP.
\<close>

definition is_space :: "char \<Rightarrow> bool" where
  "is_space c = (c \<in> set [CHR 0x09, CHR 0x0A, CHR 0x0B, CHR 0x0C, CHR 0x0D, CHR 0x20, CHR 0xA0])"

definition trim :: "string \<Rightarrow> string" where
  "trim s = rev (dropWhile is_space (rev (dropWhile is_space s)))"

text \<open>Truthiness of a \<open>string | undefined\<close>: defined and not empty.\<close>

definition truthy :: "string option \<Rightarrow> bool" where
  "truthy s = (case s of None \<Rightarrow> False | Some t \<Rightarrow> t \<noteq> [])"

text \<open>\<open>chunk.candidates && chunk.candidates[0]?.content?.parts\<close>; an array, even empty, is truthy.\<close>

definition chunk_parts :: "Chunk \<Rightarrow> Part list option" where
  "chunk_parts chunk =
     (case candidates chunk of
        None \<Rightarrow> None
      | Some cs \<Rightarrow>
          (case cs of
             [] \<Rightarrow> None
           | c # _ \<Rightarrow> (case content c of None \<Rightarrow> None | Some ct \<Rightarrow> parts ct)))"

text \<open>The inner loop (lines 59-63): \<open>if (part.text) accumulatedText += part.text\<close>.\<close>

definition add_part :: "Part \<Rightarrow> string \<Rightarrow> string" where
  "add_part part accumulatedText =
     (case part_text part of
        Some t \<Rightarrow> (if truthy (Some t) then accumulatedText @ t else accumulatedText)
      | None \<Rightarrow> accumulatedText)"

text \<open>
  The body of \<open>for await\<close> (lines 58-68) on the two accumulators.
  \<open>if (chunk.functionCalls)\<close> is true of every array.
\<close>

definition add_chunk ::
  "Chunk \<Rightarrow> string \<times> FunctionCall list option \<Rightarrow> string \<times> FunctionCall list option" where
  "add_chunk chunk acc =
     (let accumulatedText =
            (case chunk_parts chunk of
               Some ps \<Rightarrow> fold add_part ps (fst acc)
             | None \<Rightarrow> fst acc);
          accumulatedFunctionCalls =
            (case functionCalls chunk of
               Some fcs \<Rightarrow> Some fcs
             | None \<Rightarrow> snd acc)
      in (accumulatedText, accumulatedFunctionCalls))"

definition accumulate :: "Chunk list \<Rightarrow> string \<times> FunctionCall list option" where
  "accumulate cs = fold add_chunk cs ([], None)"

text \<open>\<open>accumulatedFunctionCalls[0]\<close>.\<close>

definition first_call :: "FunctionCall list \<Rightarrow> FunctionCall option" where
  "first_call fcs = (case fcs of [] \<Rightarrow> None | f # _ \<Rightarrow> Some f)"

definition empty_response_notice :: string where
  "empty_response_notice = ''I received a response, but it was empty. Can you try rephrasing?''"

text \<open>The messages lines 71-95 add, in order, for the two accumulators.\<close>

definition turns_of :: "string \<times> FunctionCall list option \<Rightarrow> ChatMessage list" where
  "turns_of acc =
     (let trimmedText = trim (fst acc);
          accumulatedFunctionCalls = snd acc
      in (if trimmedText \<noteq> [] then [TextMessage trimmedText Bot] else [])
         @ (case accumulatedFunctionCalls of
              Some fcs \<Rightarrow> [FunctionCallMessage (first_call fcs)]
            | None \<Rightarrow> [])
         @ (if trimmedText = [] \<and> accumulatedFunctionCalls = None
            then [TextMessage empty_response_notice Bot] else []))"

subsection \<open>The collaborators\<close>

text \<open>What \<open>scanPage\<close> resolves to, as line 106 destructures it.\<close>

record ScanResult =
  sr_textContent :: string
  sr_links :: "string list"
  sr_assets :: "DiscoveredAsset list"
  sr_title :: string
  sr_htmlContent :: string

text \<open>A value handed to \<open>JSON.stringify\<close>; the analyzers' results are such values.\<close>

datatype Json =
  JNull
| JBool bool
| JString string
| JArray "Json list"
| JObject "(string \<times> Json) list"

text \<open>\<open>resultPayload\<close>: the empty string it starts as, or the text of a \<open>JSON.stringify\<close>.\<close>

datatype Payload = EmptyPayload | Stringified Json

text \<open>What is sent to the planner: the three shapes lines 123-125, 216-223 and 232 build.\<close>

datatype Outgoing =
  InitialScanMessage string string string Json
| FunctionResponse "string option" Payload
| UserText string

text \<open>A call of a collaborator, in the order the calls are made.\<close>

datatype Event =
  EvCreateChatSession
| EvScanPage string
| EvExtractStructuredData string "string option"
| EvAnalyzeSeo string
| EvFetchAndEncodeImage "string option"
| EvSendMessageStream nat Outgoing

text \<open>
  The collaborators are outside the component: each answers a call from the calls made
  so far, so an answer can change from one call to the next. \<open>Inl\<close> is a rejected promise
  or a throw. \<open>stopClicked\<close> tells whether the user presses the stop button
  (\<open>handleStopFullScan\<close>) while the scan issued last is in flight, and \<open>settleOrder\<close> the
  order in which the scans of one \<open>Promise.all\<close> settle, as indices into its array.
\<close>

record Env =
  scanPage :: "Event list \<Rightarrow> string \<Rightarrow> JsError + ScanResult"
  extractStructuredData :: "Event list \<Rightarrow> string \<Rightarrow> string option \<Rightarrow> JsError + Json"
  analyzeSeo :: "Event list \<Rightarrow> string \<Rightarrow> JsError + Json"
  fetchAndEncodeImage :: "Event list \<Rightarrow> string option \<Rightarrow> JsError + string \<times> string"
  sendMessageStream :: "Event list \<Rightarrow> nat \<Rightarrow> Outgoing \<Rightarrow> JsError + Stream"
  stopClicked :: "Event list \<Rightarrow> bool"
  settleOrder :: "Event list \<Rightarrow> nat list"

subsection \<open>The component's state\<close>

text \<open>
  The \<open>useState\<close> cells and the two refs. An \<open>AbortController\<close> is an object on the heap:
  \<open>controllers\<close> holds the \<open>aborted\<close> flag of each one created, and
  \<open>fullScanAbortController\<close> the index of the one the ref points to. \<open>chatRef\<close> holds the
  number of the session. \<open>trace\<close> records the calls of the collaborators.
\<close>

record AppState =
  status :: AppStatus
  error :: "string option"
  chatHistory :: "ChatMessage list"
  discoveredLinks :: Links
  discoveredAssets :: Assets
  isSitemapOpen :: bool
  isFullScanning :: bool
  controllers :: "bool list"
  fullScanAbortController :: "nat option"
  chatRef :: "nat option"
  currentUrlRef :: string
  trace :: "Event list"

definition initial_state :: AppState where
  "initial_state =
     \<lparr>status = StInput, error = None, chatHistory = [], discoveredLinks = [],
      discoveredAssets = [], isSitemapOpen = False, isFullScanning = False,
      controllers = [], fullScanAbortController = None, chatRef = None,
      currentUrlRef = [], trace = []\<rparr>"

text \<open>How a handler ends: its promise resolves, or rejects with what was thrown.\<close>

datatype Outcome = Returned | Threw JsError

definition addMessage :: "ChatMessage \<Rightarrow> AppState \<Rightarrow> AppState" where
  "addMessage message st = st\<lparr>chatHistory := chatHistory st @ [message]\<rparr>"

definition log_event :: "Event \<Rightarrow> AppState \<Rightarrow> AppState" where
  "log_event ev st = st\<lparr>trace := trace st @ [ev]\<rparr>"

text \<open>
  \<open>processStreamAndAddMessages\<close> (lines 52-96). A stream that throws rejects the
  handler before any message is added: the accumulators are local.
\<close>

definition processStreamAndAddMessages :: "Stream \<Rightarrow> AppState \<Rightarrow> Outcome \<times> AppState" where
  "processStreamAndAddMessages responseStream st =
     (case stream_error responseStream of
        Some e \<Rightarrow> (Threw e, st)
      | None \<Rightarrow> (Returned, fold addMessage (turns_of (accumulate (chunks responseStream))) st))"

subsection \<open>One page scan\<close>

text \<open>
  A page scan is written three times (lines 151-168, 252-268 and, for the seed, 105-115).
  In the first two the code up to the \<open>await\<close> and the code after it are the same:
  \<open>updateLinkStatus(url, 'scanning')\<close> and the call of \<open>scanPage\<close>; then, when the promise
  has settled, either the three updates of a success or \<open>updateLinkStatus(url, 'failed')\<close>
  in the \<open>catch\<close>.
\<close>

definition scan_begin :: "Env \<Rightarrow> string \<Rightarrow> AppState \<Rightarrow> (JsError + ScanResult) \<times> AppState" where
  "scan_begin env url st =
     (let st1 = st\<lparr>discoveredLinks := updateLinkStatus url Scanning no_patch (discoveredLinks st)\<rparr>
      in (scanPage env (trace st1) url, log_event (EvScanPage url) st1))"

text \<open>The patch \<open>{ textContent, title, htmlContent }\<close>.\<close>

definition content_patch :: "ScanResult \<Rightarrow> LinkPatch" where
  "content_patch res =
     \<lparr>p_url = None, p_status = None, p_title = Some (sr_title res),
      p_textContent = Some (sr_textContent res), p_htmlContent = Some (sr_htmlContent res)\<rparr>"

definition scan_settle :: "string \<Rightarrow> JsError + ScanResult \<Rightarrow> AppState \<Rightarrow> AppState" where
  "scan_settle url r st =
     (case r of
        Inr res \<Rightarrow>
          st\<lparr>discoveredLinks :=
               registerDiscoveredLinks (sr_links res)
                 (updateLinkStatus url Scanned (content_patch res) (discoveredLinks st)),
             discoveredAssets := addDiscoveredAssets (sr_assets res) (discoveredAssets st)\<rparr>
      | Inl e \<Rightarrow>
          st\<lparr>discoveredLinks := updateLinkStatus url Failed no_patch (discoveredLinks st)\<rparr>)"

text \<open>A key whose value is \<open>undefined\<close> is left out by \<open>JSON.stringify\<close>.\<close>

definition opt_field :: "string \<Rightarrow> string option \<Rightarrow> (string \<times> Json) list" where
  "opt_field k v = (case v of Some s \<Rightarrow> [(k, JString s)] | None \<Rightarrow> [])"

text \<open>The entry of one URL in the result of \<open>scanPages\<close> (lines 164 and 167).\<close>

definition scan_entry :: "string \<Rightarrow> JsError + ScanResult \<Rightarrow> Json" where
  "scan_entry scanUrl r =
     (case r of
        Inr res \<Rightarrow>
          JObject [(''url'', JString scanUrl), (''success'', JBool True),
                   (''title'', JString (sr_title res)),
                   (''content'', JString (take 1000 (sr_textContent res)))]
      | Inl e \<Rightarrow>
          JObject ([(''url'', JString scanUrl), (''success'', JBool False)]
                   @ opt_field ''error'' (err_message e)))"

subsection \<open>\<open>scanPages\<close>: the fan-out of lines 148-171\<close>

text \<open>
  \<open>urlsToScan.map(async ...)\<close> runs every task up to its \<open>await\<close>, in the array's order;
  the tasks then go on as their scans settle, in an order the environment chooses.
  \<open>Promise.all\<close> gives the results in the array's order.
\<close>

fun begin_scans ::
  "Env \<Rightarrow> string list \<Rightarrow> AppState \<Rightarrow> (JsError + ScanResult) list \<times> AppState" where
  "begin_scans env [] st = ([], st)"
| "begin_scans env (scanUrl # us) st =
     (let (r, st1) = scan_begin env scanUrl st;
          (rs, st2) = begin_scans env us st1
      in (r # rs, st2))"

text \<open>
  The order in which \<open>n\<close> scans settle: the environment's, when that is an arrangement of
  the indices below \<open>n\<close>, and the array's order otherwise.
\<close>

definition settle_order :: "Env \<Rightarrow> Event list \<Rightarrow> nat \<Rightarrow> nat list" where
  "settle_order env tr n =
     (let order = settleOrder env tr in if sort order = [0..<n] then order else [0..<n])"

definition settle_scans ::
  "(string \<times> (JsError + ScanResult)) list \<Rightarrow> nat list \<Rightarrow> AppState \<Rightarrow> AppState" where
  "settle_scans tasks order st =
     fold (\<lambda>i s. if i < length tasks then scan_settle (fst (tasks ! i)) (snd (tasks ! i)) s else s)
       order st"

definition scanPages :: "Env \<Rightarrow> string list \<Rightarrow> AppState \<Rightarrow> Payload \<times> AppState" where
  "scanPages env urlsToScan st =
     (let (rs, st1) = begin_scans env urlsToScan st;
          tasks = zip urlsToScan rs;
          st2 = settle_scans tasks (settle_order env (trace st1) (length tasks)) st1
      in (Stringified (JArray (map (\<lambda>(scanUrl, r). scan_entry scanUrl r) tasks)), st2))"

subsection \<open>The bulk scan (lines 236-278)\<close>

definition aborted :: "AppState \<Rightarrow> nat \<Rightarrow> bool" where
  "aborted st c = (c < length (controllers st) \<and> controllers st ! c)"

definition handleStopFullScan :: "AppState \<Rightarrow> AppState" where
  "handleStopFullScan st =
     (let st1 = (case fullScanAbortController st of
                   Some c \<Rightarrow> st\<lparr>controllers := (controllers st)[c := True]\<rparr>
                 | None \<Rightarrow> st)
      in st1\<lparr>isFullScanning := False\<rparr>)"

text \<open>
  Lines 243-245. A pending record always has its \<open>url\<close> (it is written with it, and no
  update keeps the status \<open>pending\<close>; see \<open>pending_have_url\<close> below); the model leaves out
  a pending record without one.
\<close>

definition pendingUrls :: "Links \<Rightarrow> string list" where
  "pendingUrls links =
     concat (map (\<lambda>link. case l_url link of Some u \<Rightarrow> [u] | None \<Rightarrow> [])
                 (filter (\<lambda>link. l_status link = Pending) (map_values links)))"

text \<open>
  The loop of lines 247-269 for the controller \<open>signal\<close>. While a scan is in flight the
  user can press stop; the scan's result is applied all the same.
\<close>

fun fullScanLoop :: "Env \<Rightarrow> nat \<Rightarrow> string list \<Rightarrow> AppState \<Rightarrow> AppState" where
  "fullScanLoop env signal [] st = st"
| "fullScanLoop env signal (url # rest) st =
     (if aborted st signal then st
      else
        (let (r, st1) = scan_begin env url st;
             st2 = (if stopClicked env (trace st1) then handleStopFullScan st1 else st1);
             st3 = scan_settle url r st2
         in fullScanLoop env signal rest st3))"

text \<open>Lines 237-241: the flags, and a new controller that the ref now points to.\<close>

definition startFullScan :: "bool \<Rightarrow> AppState \<Rightarrow> AppState" where
  "startFullScan isAiTriggered st =
     (let st1 = st\<lparr>isFullScanning := True\<rparr>;
          st2 = (if \<not> isAiTriggered then st1\<lparr>isSitemapOpen := False\<rparr> else st1)
      in st2\<lparr>controllers := controllers st2 @ [False],
             fullScanAbortController := Some (length (controllers st2))\<rparr>)"

text \<open>
  \<open>handleFullScan\<close>, run from its call to its end with no other handler in between but
  the stop button. The signal is that of the controller just created, and the URLs are
  those pending when the handler is called.
\<close>

definition handleFullScan :: "Env \<Rightarrow> bool \<Rightarrow> AppState \<Rightarrow> AppState" where
  "handleFullScan env isAiTriggered st =
     (let signal = length (controllers st);
          st3 = startFullScan isAiTriggered st;
          st4 = fullScanLoop env signal (pendingUrls (discoveredLinks st)) st3
      in st4\<lparr>isFullScanning := False\<rparr>)"

subsection \<open>The seed scan (lines 99-134)\<close>

definition unknown_scan_error :: string where
  "unknown_scan_error = ''An unknown error occurred during the initial scan.''"

text \<open>The \<open>catch\<close> of lines 129-133; \<open>e.message || '...'\<close> takes the default for an empty message too.\<close>

definition catch_initial :: "JsError \<Rightarrow> AppState \<Rightarrow> AppState" where
  "catch_initial e st =
     st\<lparr>error := Some (case err_message e of
                        Some m \<Rightarrow> (if truthy (Some m) then m else unknown_scan_error)
                      | None \<Rightarrow> unknown_scan_error),
        status := StInput\<rparr>"

definition status_name :: "LinkStatus \<Rightarrow> string" where
  "status_name s =
     (case s of Pending \<Rightarrow> ''pending'' | Scanning \<Rightarrow> ''scanning''
              | Scanned \<Rightarrow> ''scanned'' | Failed \<Rightarrow> ''failed'')"

text \<open>\<open>l => ({ url: l.url, title: l.title, status: l.status })\<close>.\<close>

definition page_summary :: "DiscoveredLink \<Rightarrow> Json" where
  "page_summary l =
     JObject (opt_field ''url'' (l_url l) @ opt_field ''title'' (l_title l)
              @ [(''status'', JString (status_name (l_status l)))])"

text \<open>The map lines 107-115 build: the seed as \<open>scanned\<close>, then its links.\<close>

definition seed_links :: "string \<Rightarrow> ScanResult \<Rightarrow> Links" where
  "seed_links url res =
     (let initialLink =
            \<lparr>l_url = Some url, l_status = Scanned, l_title = Some (sr_title res),
             l_textContent = Some (sr_textContent res),
             l_htmlContent = Some (sr_htmlContent res)\<rparr>
      in registerDiscoveredLinks (sr_links res) (map_put url initialLink []))"

text \<open>
  \<open>createChatSession()\<close> gives a new session, numbered by the sessions created before it.
  Everything after it is inside the \<open>try\<close>, so the handler's promise always resolves.
\<close>

definition handleInitialScan :: "Env \<Rightarrow> string \<Rightarrow> AppState \<Rightarrow> AppState" where
  "handleInitialScan env url st =
     (let st1 = st\<lparr>status := StScanning, error := None, currentUrlRef := url\<rparr>;
          session = length (filter (\<lambda>ev. ev = EvCreateChatSession) (trace st1));
          st2 = log_event EvCreateChatSession (st1\<lparr>chatRef := Some session\<rparr>);
          r = scanPage env (trace st2) url;
          st3 = log_event (EvScanPage url) st2
      in case r of
           Inl e \<Rightarrow> catch_initial e st3
         | Inr res \<Rightarrow>
             (let newLinksMap = seed_links url res;
                  st4 = st3\<lparr>discoveredLinks := newLinksMap,
                            discoveredAssets :=
                              addDiscoveredAssets (sr_assets res) (discoveredAssets st3),
                            status := StChat\<rparr>;
                  initialPagesPayload = JArray (map page_summary (map_values newLinksMap));
                  msg = InitialScanMessage url (sr_title res)
                          (take 1000 (sr_textContent res)) initialPagesPayload
              in case chatRef st4 of
                   None \<Rightarrow> catch_initial typeError st4
                 | Some c \<Rightarrow>
                     (let r2 = sendMessageStream env (trace st4) c msg;
                          st5 = log_event (EvSendMessageStream c msg) st4
                      in case r2 of
                           Inl e \<Rightarrow> catch_initial e st5
                         | Inr responseStream \<Rightarrow>
                             (case processStreamAndAddMessages responseStream st5 of
                                (Threw e, st6) \<Rightarrow> catch_initial e st6
                              | (Returned, st6) \<Rightarrow> st6))))"

subsection \<open>The approval gate and the dispatch by name (lines 136-226)\<close>

text \<open>A template literal prints \<open>undefined\<close> for a missing value.\<close>

definition render :: "string option \<Rightarrow> string" where
  "render v = (case v of Some s \<Rightarrow> s | None \<Rightarrow> ''undefined'')"

definition failure_payload :: "string \<Rightarrow> Payload" where
  "failure_payload msg = Stringified (JObject [(''success'', JBool False), (''error'', JString msg)])"

definition data_payload :: "Json \<Rightarrow> Payload" where
  "data_payload d = Stringified (JObject [(''success'', JBool True), (''data'', d)])"

definition not_scanned_error :: "string option \<Rightarrow> string" where
  "not_scanned_error url =
     ''Page '' @ render url @ '' has not been scanned yet. Please use scanPages first.''"

definition full_scan_ack :: Payload where
  "full_scan_ack =
     Stringified (JObject [(''success'', JBool True),
       (''message'', JString (''Full scan initiated. I will provide a summary once a ''
          @ ''significant number of pages are scanned.''))])"

text \<open>
  \<open>linkData = discoveredLinks.get(url)\<close> and the test
  \<open>linkData?.status === 'scanned' && linkData.htmlContent\<close> of lines 178 and 189: the markup
  when the test passes. A \<open>url\<close> that is \<open>undefined\<close> is no key of the map.
\<close>

definition scanned_markup :: "Links \<Rightarrow> string option \<Rightarrow> string option" where
  "scanned_markup links url =
     (case url of
        None \<Rightarrow> None
      | Some u \<Rightarrow>
          (case map_get links u of
             None \<Rightarrow> None
           | Some linkData \<Rightarrow>
               (if l_status linkData = Scanned \<and> truthy (l_htmlContent linkData)
                then l_htmlContent linkData else None)))"

text \<open>
  Lines 144-213: the payload of an approved call, or what is thrown on the way. Reading
  a property of \<open>functionCall.args\<close> when it is \<open>undefined\<close>, or calling \<open>join\<close> on a missing
  \<open>urls\<close>, throws a \<open>TypeError\<close> outside every \<open>try\<close>. \<open>userMessage\<close> is assigned and never
  read.
\<close>

definition dispatch :: "Env \<Rightarrow> FunctionCall \<Rightarrow> AppState \<Rightarrow> (JsError + Payload) \<times> AppState" where
  "dispatch env functionCall st =
     (if fc_name functionCall = Some ''scanPages'' then
        (case fc_args functionCall of
           None \<Rightarrow> (Inl typeError, st)
         | Some args \<Rightarrow>
             (case arg_urls args of
                None \<Rightarrow> (Inl typeError, st)
              | Some urlsToScan \<Rightarrow>
                  (let (resultPayload, st1) = scanPages env urlsToScan st
                   in (Inr resultPayload, st1))))
      else if fc_name functionCall = Some ''extractDataFromPage'' then
        (case fc_args functionCall of
           None \<Rightarrow> (Inl typeError, st)
         | Some args \<Rightarrow>
             (case scanned_markup (discoveredLinks st) (arg_url args) of
                Some html \<Rightarrow>
                  (let st1 = log_event (EvExtractStructuredData html (arg_dataType args)) st
                   in case extractStructuredData env (trace st) html (arg_dataType args) of
                        Inr extractedData \<Rightarrow> (Inr (data_payload extractedData), st1)
                      | Inl e \<Rightarrow> (Inl e, st1))
              | None \<Rightarrow> (Inr (failure_payload (not_scanned_error (arg_url args))), st)))
      else if fc_name functionCall = Some ''performSeoAnalysis'' then
        (case fc_args functionCall of
           None \<Rightarrow> (Inl typeError, st)
         | Some args \<Rightarrow>
             (case scanned_markup (discoveredLinks st) (arg_url args) of
                Some html \<Rightarrow>
                  (let st1 = log_event (EvAnalyzeSeo html) st
                   in case analyzeSeo env (trace st) html of
                        Inr analysisResult \<Rightarrow> (Inr (data_payload analysisResult), st1)
                      | Inl e \<Rightarrow> (Inl e, st1))
              | None \<Rightarrow> (Inr (failure_payload (not_scanned_error (arg_url args))), st)))
      else if fc_name functionCall = Some ''analyzeImageFromUrl'' then
        (case fc_args functionCall of
           None \<Rightarrow> (Inl typeError, st)
         | Some args \<Rightarrow>
             (let st1 = log_event (EvFetchAndEncodeImage (arg_url args)) st
              in case fetchAndEncodeImage env (trace st) (arg_url args) of
                   Inr (base64Data, mimeType) \<Rightarrow>
                     (Inr (Stringified (JObject
                        ([(''image'', JObject [(''inlineData'',
                             JObject [(''data'', JString base64Data),
                                      (''mimeType'', JString mimeType)])])]
                         @ opt_field ''prompt'' (arg_prompt args)))), st1)
                 | Inl e \<Rightarrow>
                     (Inr (failure_payload
                        (''Failed to fetch or encode image: '' @ render (err_message e))), st1)))
      else if fc_name functionCall = Some ''scanAllPendingPages'' then
        (Inr full_scan_ack, handleFullScan env True st)
      else (Inr EmptyPayload, st))"

text \<open>Lines 215-225: the tool result goes to the planner if there is a session.\<close>

definition send_result :: "Env \<Rightarrow> string option \<Rightarrow> Payload \<Rightarrow> AppState \<Rightarrow> Outcome \<times> AppState" where
  "send_result env name resultPayload st =
     (case chatRef st of
        None \<Rightarrow> (Returned, st)
      | Some c \<Rightarrow>
          (let msg = FunctionResponse name resultPayload;
               r = sendMessageStream env (trace st) c msg;
               st1 = log_event (EvSendMessageStream c msg) st
           in case r of
                Inl e \<Rightarrow> (Threw e, st1)
              | Inr responseStream \<Rightarrow> processStreamAndAddMessages responseStream st1))"

text \<open>\<open>a === b\<close> on two values that are each an object or \<open>undefined\<close>.\<close>

definition same_object :: "FunctionCall option \<Rightarrow> FunctionCall option \<Rightarrow> bool" where
  "same_object a b =
     (case a of
        None \<Rightarrow> b = None
      | Some x \<Rightarrow> (case b of None \<Rightarrow> False | Some y \<Rightarrow> fc_ident x = fc_ident y))"

text \<open>\<open>msg.type !== 'function_call' || msg.functionCall !== functionCall\<close>.\<close>

definition keeps :: "FunctionCall option \<Rightarrow> ChatMessage \<Rightarrow> bool" where
  "keeps functionCall msg =
     (case msg of
        TextMessage _ _ \<Rightarrow> True
      | FunctionCallMessage g \<Rightarrow> \<not> same_object g functionCall)"

definition decline_notice :: string where
  "decline_notice = ''Okay, I won't proceed with that action. How else can I help?''"

definition handleFunctionCallResponse ::
  "Env \<Rightarrow> bool \<Rightarrow> FunctionCall option \<Rightarrow> AppState \<Rightarrow> Outcome \<times> AppState" where
  "handleFunctionCallResponse env approved functionCall st =
     (let st1 = st\<lparr>chatHistory := filter (keeps functionCall) (chatHistory st)\<rparr>
      in if \<not> approved then (Returned, addMessage (TextMessage decline_notice Bot) st1)
         else
           (case functionCall of
              None \<Rightarrow> (Threw typeError, st1)
            | Some fc \<Rightarrow>
                (case dispatch env fc st1 of
                   (Inl e, st2) \<Rightarrow> (Threw e, st2)
                 | (Inr resultPayload, st2) \<Rightarrow> send_result env (fc_name fc) resultPayload st2)))"

text \<open>
  \<open>onManualScan\<close> (line 334) approves a \<open>scanPages\<close> call it builds itself; the new object
  is none of the transcript's.
\<close>

definition fresh_ident :: "ChatMessage list \<Rightarrow> nat" where
  "fresh_ident history =
     Suc (fold (\<lambda>msg n. case msg of
                          FunctionCallMessage (Some g) \<Rightarrow> max (fc_ident g) n
                        | _ \<Rightarrow> n) history 0)"

definition onManualScan :: "Env \<Rightarrow> string \<Rightarrow> AppState \<Rightarrow> Outcome \<times> AppState" where
  "onManualScan env url st =
     handleFunctionCallResponse env True
       (Some \<lparr>fc_ident = fresh_ident (chatHistory st), fc_name = Some ''scanPages'',
              fc_args = Some \<lparr>arg_urls = Some [url], arg_url = None, arg_dataType = None,
                              arg_prompt = None\<rparr>\<rparr>) st"

subsection \<open>A user message and the reset (lines 229-234 and 280-290)\<close>

definition handleSendMessage :: "Env \<Rightarrow> string \<Rightarrow> AppState \<Rightarrow> Outcome \<times> AppState" where
  "handleSendMessage env text st =
     (case chatRef st of
        None \<Rightarrow> (Returned, st)
      | Some c \<Rightarrow>
          (let st1 = addMessage (TextMessage text User) st;
               r = sendMessageStream env (trace st1) c (UserText text);
               st2 = log_event (EvSendMessageStream c (UserText text)) st1
           in case r of
                Inl e \<Rightarrow> (Threw e, st2)
              | Inr responseStream \<Rightarrow> processStreamAndAddMessages responseStream st2))"

definition handleReset :: "AppState \<Rightarrow> AppState" where
  "handleReset st =
     st\<lparr>status := StInput, error := None, chatHistory := [], discoveredLinks := [],
        discoveredAssets := [], isSitemapOpen := False, isFullScanning := False,
        chatRef := None, currentUrlRef := []\<rparr>"

subsection \<open>The handlers interleaved\<close>

text \<open>
  An async handler runs until its next \<open>await\<close>; other handlers run before it goes on. A
  task is a scan in flight together with what its handler does once the scan has
  settled: the per-URL function of \<open>scanPages\<close> (lines 150-169) ends after applying the
  result; the loop of the bulk scan (lines 247-269) goes on with the URLs that remain,
  under the signal it took when it started. The result of a scan is fixed when the scan
  is issued. A task that has ended keeps its place in the list.
\<close>

datatype Task =
  Finished
| PageTask string "JsError + ScanResult"
| FullScanTask nat string "JsError + ScanResult" "string list"

text \<open>Who issued a scan: the bulk scan with that signal, or a \<open>scanPages\<close> call.\<close>

datatype Origin = BulkRun nat | Fanout

text \<open>
  The component's state, the tasks in flight, and a record of the scans issued, each with
  its origin.
\<close>

record CState =
  app :: AppState
  tasks :: "Task list"
  begun :: "(Origin \<times> string) list"

text \<open>
  What the user, the planner's approved calls and the network do, one at a time: start a
  bulk scan, press stop, start the fan-out of a \<open>scanPages\<close> call (an approved proposal
  or a manual re-scan), and let the scan of the task in place \<open>i\<close> settle.
\<close>

datatype Action =
  ActFullScan bool
| ActStop
| ActScanPages "string list"
| ActSettle nat

text \<open>
  The head of the bulk scan's loop for the task in place \<open>i\<close>: the end of the handler when
  no URL remains or the signal is aborted, else the start of the next scan.
\<close>

definition resume_run :: "Env \<Rightarrow> nat \<Rightarrow> nat \<Rightarrow> string list \<Rightarrow> CState \<Rightarrow> CState" where
  "resume_run env i signal urls cs =
     (case urls of
        [] \<Rightarrow> cs\<lparr>app := (app cs)\<lparr>isFullScanning := False\<rparr>, tasks := (tasks cs)[i := Finished]\<rparr>
      | url # rest \<Rightarrow>
          (if aborted (app cs) signal
           then cs\<lparr>app := (app cs)\<lparr>isFullScanning := False\<rparr>, tasks := (tasks cs)[i := Finished]\<rparr>
           else
             (let (r, st1) = scan_begin env url (app cs)
              in cs\<lparr>app := st1,
                    tasks := (tasks cs)[i := FullScanTask signal url r rest],
                    begun := begun cs @ [(BulkRun signal, url)]\<rparr>)))"

fun step :: "Env \<Rightarrow> Action \<Rightarrow> CState \<Rightarrow> CState" where
  "step env (ActFullScan isAiTriggered) cs =
     resume_run env (length (tasks cs)) (length (controllers (app cs)))
       (pendingUrls (discoveredLinks (app cs)))
       (cs\<lparr>app := startFullScan isAiTriggered (app cs), tasks := tasks cs @ [Finished]\<rparr>)"
| "step env ActStop cs = cs\<lparr>app := handleStopFullScan (app cs)\<rparr>"
| "step env (ActScanPages urlsToScan) cs =
     (let (rs, st1) = begin_scans env urlsToScan (app cs)
      in cs\<lparr>app := st1,
            tasks := tasks cs @ map (\<lambda>(scanUrl, r). PageTask scanUrl r) (zip urlsToScan rs),
            begun := begun cs @ map (\<lambda>scanUrl. (Fanout, scanUrl)) urlsToScan\<rparr>)"
| "step env (ActSettle i) cs =
     (if i < length (tasks cs) then
        (case tasks cs ! i of
           Finished \<Rightarrow> cs
         | PageTask url r \<Rightarrow>
             cs\<lparr>app := scan_settle url r (app cs), tasks := (tasks cs)[i := Finished]\<rparr>
         | FullScanTask signal url r rest \<Rightarrow>
             resume_run env i signal rest (cs\<lparr>app := scan_settle url r (app cs)\<rparr>))
      else cs)"

definition run :: "Env \<Rightarrow> Action list \<Rightarrow> CState \<Rightarrow> CState" where
  "run env acts cs = fold (step env) acts cs"

text \<open>The component in a state, with nothing in flight.\<close>

definition idle :: "AppState \<Rightarrow> CState" where
  "idle st = \<lparr>app = st, tasks = [], begun = []\<rparr>"


subsection \<open>The accumulation rule as the specification words it\<close>






subsection \<open>Reading the frontier\<close>



text \<open>One turn of the loop of the bulk scan, from the test of the signal on.\<close>

definition full_iter :: "Env \<Rightarrow> string \<Rightarrow> AppState \<Rightarrow> AppState" where
  "full_iter env url st =
     scan_settle url (scanPage env (trace st) url)
       (if stopClicked env (trace st @ [EvScanPage url])
        then handleStopFullScan (snd (scan_begin env url st))
        else snd (scan_begin env url st))"


subsection \<open>Schedules and invariants\<close>

text \<open>
  The turns the environment takes while a bulk scan runs alone, for the task in place
  \<open>i\<close> under the signal \<open>c\<close>: for each URL, the stop button if it is pressed during the
  scan, then the settling of the scan.
\<close>

fun loop_schedule :: "Env \<Rightarrow> nat \<Rightarrow> nat \<Rightarrow> string list \<Rightarrow> AppState \<Rightarrow> Action list" where
  "loop_schedule env i c [] st = []"
| "loop_schedule env i c (url # rest) st =
     (if aborted st c then []
      else (if stopClicked env (trace st @ [EvScanPage url]) then [ActStop] else [])
           @ [ActSettle i] @ loop_schedule env i c rest (full_iter env url st))"

text \<open>A record that is pending has its URL, the key it is stored under.\<close>

definition pending_have_url :: "Links \<Rightarrow> bool" where
  "pending_have_url links =
     list_all (\<lambda>(k, l). l_status l = Pending \<longrightarrow> l_url l = Some k) links"

text \<open>The ref points to a controller that has been created.\<close>

definition ref_ok :: "AppState \<Rightarrow> bool" where
  "ref_ok st =
     (case fullScanAbortController st of None \<Rightarrow> True | Some c \<Rightarrow> c < length (controllers st))"

subsection \<open>Scans of one URL that do not overlap\<close>

text \<open>The URL whose scan a task awaits.\<close>

fun task_url :: "Task \<Rightarrow> string option" where
  "task_url Finished = None"
| "task_url (PageTask url r) = Some url"
| "task_url (FullScanTask c url r rest) = Some url"

text \<open>How many scans of the URL are in flight.\<close>

definition in_flight :: "CState \<Rightarrow> string \<Rightarrow> nat" where
  "in_flight cs k = length (filter (\<lambda>t. task_url t = Some k) (tasks cs))"




subsection \<open>A small site, for the concrete instances\<close>

definition home_scanned :: DiscoveredLink where
  "home_scanned =
     \<lparr>l_url = Some ''https://a.test/'', l_status = Scanned, l_title = Some ''Home'',
      l_textContent = Some ''Welcome'', l_htmlContent = Some ''<html>Welcome</html>''\<rparr>"

definition home_only :: Links where
  "home_only = [(''https://a.test/'', home_scanned)]"

definition logo_from_home :: DiscoveredAsset where
  "logo_from_home =
     \<lparr>a_url = ''https://a.test/logo.png'', a_type = Image, a_sourcePage = ''https://a.test/''\<rparr>"

definition logo_from_about :: DiscoveredAsset where
  "logo_from_about =
     \<lparr>a_url = ''https://a.test/logo.png'', a_type = Pdf,
      a_sourcePage = ''https://a.test/about''\<rparr>"

definition flyer_from_about :: DiscoveredAsset where
  "flyer_from_about =
     \<lparr>a_url = ''https://a.test/flyer.pdf'', a_type = Pdf,
      a_sourcePage = ''https://a.test/about''\<rparr>"

text \<open>The home page links to two pages; one of them answers, the other does not.\<close>

definition home_page :: ScanResult where
  "home_page =
     \<lparr>sr_textContent = ''Welcome'',
      sr_links = [''https://a.test/about'', ''https://a.test/blog''],
      sr_assets = [logo_from_home], sr_title = ''Home'',
      sr_htmlContent = ''<html>Welcome</html>''\<rparr>"

definition about_page :: ScanResult where
  "about_page =
     \<lparr>sr_textContent = ''About us'',
      sr_links = [''https://a.test/'', ''https://a.test/team''],
      sr_assets = [logo_from_about, flyer_from_about], sr_title = ''About'',
      sr_htmlContent = ''<html>About us</html>''\<rparr>"

definition site :: "Event list \<Rightarrow> string \<Rightarrow> JsError + ScanResult" where
  "site tr url =
     (if url = ''https://a.test/'' then Inr home_page
      else if url = ''https://a.test/about'' then Inr about_page
      else Inl (JsError (Some ''HTTP 404'')))"

definition text_chunk :: "string \<Rightarrow> Chunk" where
  "text_chunk t =
     \<lparr>candidates = Some [\<lparr>content = Some \<lparr>parts = Some [\<lparr>part_text = Some t\<rparr>]\<rparr>\<rparr>],
      functionCalls = None\<rparr>"


text \<open>A planner that answers every message with the same two chunks of text.\<close>

definition example_env :: Env where
  "example_env =
     \<lparr>scanPage = site,
      extractStructuredData = (\<lambda>tr html dataType. Inr (JArray [])),
      analyzeSeo = (\<lambda>tr html. Inr JNull),
      fetchAndEncodeImage = (\<lambda>tr url. Inl (JsError (Some ''HTTP 404''))),
      sendMessageStream =
        (\<lambda>tr c msg. Inr \<lparr>chunks = [text_chunk ''Hello'', text_chunk '' world''],
                            stream_error = None\<rparr>),
      stopClicked = (\<lambda>tr. False),
      settleOrder = (\<lambda>tr. [])\<rparr>"

text \<open>The state once the seed has been scanned and the planner has answered.\<close>

definition seeded :: AppState where
  "seeded =
     \<lparr>status = StChat, error = None, chatHistory = [TextMessage ''Hello world'' Bot],
      discoveredLinks =
        [(''https://a.test/'', home_scanned),
         (''https://a.test/about'', pending_link ''https://a.test/about''),
         (''https://a.test/blog'', pending_link ''https://a.test/blog'')],
      discoveredAssets = [(''https://a.test/logo.png'', logo_from_home)],
      isSitemapOpen = False, isFullScanning = False, controllers = [],
      fullScanAbortController = None, chatRef = Some 0,
      currentUrlRef = ''https://a.test/'',
      trace =
        [EvCreateChatSession, EvScanPage ''https://a.test/'',
         EvSendMessageStream 0
           (InitialScanMessage ''https://a.test/'' ''Home'' ''Welcome''
              (JArray
                [JObject [(''url'', JString ''https://a.test/''), (''title'', JString ''Home''),
                          (''status'', JString ''scanned'')],
                 JObject [(''url'', JString ''https://a.test/about''),
                          (''title'', JString ''Unknown Title''),
                          (''status'', JString ''pending'')],
                 JObject [(''url'', JString ''https://a.test/blog''),
                          (''title'', JString ''Unknown Title''),
                          (''status'', JString ''pending'')]]))]\<rparr>"

definition call_of :: "nat \<Rightarrow> string \<Rightarrow> Args option \<Rightarrow> FunctionCall" where
  "call_of i name args = \<lparr>fc_ident = i, fc_name = Some name, fc_args = args\<rparr>"

definition url_args :: "string \<Rightarrow> Args" where
  "url_args u = \<lparr>arg_urls = None, arg_url = Some u, arg_dataType = Some ''products'',
     arg_prompt = None\<rparr>"

section \<open>Properties of the map\<close>

lemma map_get_put: "map_get (map_put k v m) k' = (if k' = k then Some v else map_get m k')"
  by (induction m) auto

lemma map_has_put: "map_has (map_put k v m) k' \<longleftrightarrow> k' = k \<or> map_has m k'"
  by (simp add: map_has_def map_get_put)

lemma map_get_None_iff: "map_get m k = None \<longleftrightarrow> k \<notin> set (map_keys m)"
  by (induction m) (auto simp: map_keys_def split: if_splits)

lemma map_has_iff: "map_has m k \<longleftrightarrow> k \<in> set (map_keys m)"
  by (simp add: map_has_def map_get_None_iff)

lemma map_keys_put:
  "map_keys (map_put k v m) = (if map_has m k then map_keys m else map_keys m @ [k])"
  by (induction m) (auto simp: map_keys_def map_has_def split: if_splits)

lemma distinct_map_put: "distinct (map_keys m) \<Longrightarrow> distinct (map_keys (map_put k v m))"
  by (simp add: map_keys_put map_has_iff)

lemma map_put_absent: "\<not> map_has m k \<Longrightarrow> map_put k v m = m @ [(k, v)]"
  by (induction m) (auto simp: map_has_def)

section \<open>Properties of the frontier's primitives\<close>

lemma map_get_registerLink:
  "map_get (registerLink u m) k =
     (if map_has m k then map_get m k else if k = u then Some (pending_link u) else None)"
  by (auto simp: registerLink_def map_get_put map_has_def)

lemma registerLink_append:
  "registerLink u m = m @ (if map_has m u then [] else [(u, pending_link u)])"
  by (simp add: registerLink_def map_put_absent)

lemma map_has_registerLink: "map_has (registerLink u m) k \<longleftrightarrow> k = u \<or> map_has m k"
  by (auto simp: registerLink_def map_has_put)

lemma map_get_registerDiscoveredLinks:
  "map_get (registerDiscoveredLinks ls m) k =
     (if map_has m k then map_get m k else if k \<in> set ls then Some (pending_link k) else None)"
proof (induction ls arbitrary: m)
  case Nil
  then show ?case by (simp add: registerDiscoveredLinks_def map_has_def)
next
  case (Cons u ls)
  have "map_get (registerDiscoveredLinks (u # ls) m) k
      = map_get (registerDiscoveredLinks ls (registerLink u m)) k"
    by (simp add: registerDiscoveredLinks_def)
  then show ?case
    by (auto simp: Cons.IH map_has_registerLink map_get_registerLink)
qed

lemma registerDiscoveredLinks_prefix: "\<exists>new. registerDiscoveredLinks ls m = m @ new"
proof (induction ls arbitrary: m)
  case Nil
  then show ?case by (simp add: registerDiscoveredLinks_def)
next
  case (Cons u ls)
  obtain new where "registerDiscoveredLinks ls (registerLink u m) = registerLink u m @ new"
    using Cons.IH by blast
  then show ?case
    by (simp add: registerDiscoveredLinks_def registerLink_append)
qed

lemma registerDiscoveredLinks_fixed:
  "set ls \<subseteq> set (map_keys m) \<Longrightarrow> registerDiscoveredLinks ls m = m"
  by (induction ls) (auto simp: registerDiscoveredLinks_def registerLink_def map_has_iff)

lemma map_keys_registerDiscoveredLinks:
  "set (map_keys (registerDiscoveredLinks ls m)) = set (map_keys m) \<union> set ls"
proof -
  have "\<And>k. map_has (registerDiscoveredLinks ls m) k \<longleftrightarrow> map_has m k \<or> k \<in> set ls"
    unfolding map_has_def[of "registerDiscoveredLinks ls m"]
    by (auto simp: map_get_registerDiscoveredLinks map_has_def)
  then show ?thesis by (auto simp: map_has_iff)
qed

lemma registerDiscoveredLinks_twice:
  "registerDiscoveredLinks ls (registerDiscoveredLinks ls m) = registerDiscoveredLinks ls m"
  by (rule registerDiscoveredLinks_fixed) (simp add: map_keys_registerDiscoveredLinks)

lemma map_get_addAsset:
  "map_get (addAsset a m) k =
     (if map_has m k then map_get m k else if k = a_url a then Some a else None)"
  by (auto simp: addAsset_def map_get_put map_has_def)

lemma addAsset_append:
  "addAsset a m = m @ (if map_has m (a_url a) then [] else [(a_url a, a)])"
  by (simp add: addAsset_def map_put_absent)

lemma map_has_addAsset: "map_has (addAsset a m) k \<longleftrightarrow> k = a_url a \<or> map_has m k"
  by (auto simp: addAsset_def map_has_put)

lemma map_get_addDiscoveredAssets:
  "map_get (addDiscoveredAssets as m) k =
     (if map_has m k then map_get m k else find (\<lambda>a. a_url a = k) as)"
proof (induction as arbitrary: m)
  case Nil
  then show ?case by (simp add: addDiscoveredAssets_def map_has_def)
next
  case (Cons a as)
  have "map_get (addDiscoveredAssets (a # as) m) k
      = map_get (addDiscoveredAssets as (addAsset a m)) k"
    by (simp add: addDiscoveredAssets_def)
  then show ?case
    by (auto simp: Cons.IH map_has_addAsset map_get_addAsset)
qed

lemma addDiscoveredAssets_prefix: "\<exists>new. addDiscoveredAssets as m = m @ new"
proof (induction as arbitrary: m)
  case Nil
  then show ?case by (simp add: addDiscoveredAssets_def)
next
  case (Cons a as)
  obtain new where "addDiscoveredAssets as (addAsset a m) = addAsset a m @ new"
    using Cons.IH by blast
  then show ?case
    by (simp add: addDiscoveredAssets_def addAsset_append)
qed

lemma updateLinkStatus_absent:
  "\<not> map_has prev url \<Longrightarrow>
   updateLinkStatus url st data prev = prev @ [(url, merge_link None st data)]"
  by (simp add: updateLinkStatus_def map_put_absent map_has_def)

lemma map_get_updateLinkStatus:
  "map_get (updateLinkStatus url st data prev) k =
     (if k = url then Some (merge_link (map_get prev url) st data) else map_get prev k)"
  by (simp add: updateLinkStatus_def map_get_put)

lemma map_has_updateLinkStatus:
  "map_has (updateLinkStatus url st data prev) k \<longleftrightarrow> k = url \<or> map_has prev k"
  by (simp add: updateLinkStatus_def map_has_put)

lemma discoveredLinks_scan_settle_ok:
  "discoveredLinks (scan_settle url (Inr res) st) =
     registerDiscoveredLinks (sr_links res)
       (updateLinkStatus url Scanned (content_patch res) (discoveredLinks st))"
  by (simp add: scan_settle_def)

lemma scan_settle_keeps_others:
  assumes "k \<noteq> url" and "map_has (discoveredLinks st) k"
  shows "map_get (discoveredLinks (scan_settle url (Inr res) st)) k = map_get (discoveredLinks st) k"
  using assms
  by (simp add: discoveredLinks_scan_settle_ok map_get_registerDiscoveredLinks
      map_has_updateLinkStatus map_get_updateLinkStatus)

lemma seed_links_seed:
  "map_get (seed_links url res) url =
     Some \<lparr>l_url = Some url, l_status = Scanned, l_title = Some (sr_title res),
            l_textContent = Some (sr_textContent res),
            l_htmlContent = Some (sr_htmlContent res)\<rparr>"
  by (simp add: seed_links_def Let_def map_get_registerDiscoveredLinks map_has_def)

section \<open>Properties of the turn accumulator\<close>












lemma fold_addMessage: "fold addMessage ms st = st\<lparr>chatHistory := chatHistory st @ ms\<rparr>"
  by (induction ms arbitrary: st) (simp_all add: addMessage_def)


section \<open>Properties of the handlers\<close>

lemma handleInitialScan_failure:
  assumes "scanPage env (trace st @ [EvCreateChatSession]) url = Inl e"
  shows "handleInitialScan env url st =
     st\<lparr>status := StInput,
        error := Some (case err_message e of
                         Some m \<Rightarrow> (if m \<noteq> [] then m else unknown_scan_error)
                       | None \<Rightarrow> unknown_scan_error),
        chatRef := Some (length (filter (\<lambda>ev. ev = EvCreateChatSession) (trace st))),
        currentUrlRef := url,
        trace := trace st @ [EvCreateChatSession, EvScanPage url]\<rparr>"
  using assms
  by (simp add: handleInitialScan_def Let_def log_event_def catch_initial_def truthy_def
      split: option.splits)

lemma scanned_markup_None_iff:
  "scanned_markup links url = None \<longleftrightarrow>
     (\<forall>u l. url = Some u \<longrightarrow> map_get links u = Some l \<longrightarrow>
        l_status l \<noteq> Scanned \<or> \<not> truthy (l_htmlContent l))"
  by (auto simp: scanned_markup_def truthy_def split: option.splits)

lemma dispatch_extract_not_scanned:
  assumes "fc_name fc = Some ''extractDataFromPage'' \<or> fc_name fc = Some ''performSeoAnalysis''"
    and "fc_args fc = Some args"
    and "scanned_markup (discoveredLinks st) (arg_url args) = None"
  shows "dispatch env fc st = (Inr (failure_payload (not_scanned_error (arg_url args))), st)"
  using assms by (auto simp: dispatch_def)

lemma send_result_trace:
  "chatRef st = Some c \<Longrightarrow>
   trace (snd (send_result env name p st)) = trace st @ [EvSendMessageStream c (FunctionResponse name p)]"
  by (simp add: send_result_def Let_def log_event_def processStreamAndAddMessages_def
      fold_addMessage split: sum.splits option.splits)

lemma send_result_frontier:
  "discoveredLinks (snd (send_result env name p st)) = discoveredLinks st
   \<and> discoveredAssets (snd (send_result env name p st)) = discoveredAssets st"
  by (simp add: send_result_def Let_def log_event_def processStreamAndAddMessages_def
      fold_addMessage split: sum.splits option.splits)



lemma handle_approved:
  "handleFunctionCallResponse env True (Some fc) st =
     (case dispatch env fc (st\<lparr>chatHistory := filter (keeps (Some fc)) (chatHistory st)\<rparr>) of
        (Inl e, st2) \<Rightarrow> (Threw e, st2)
      | (Inr resultPayload, st2) \<Rightarrow> send_result env (fc_name fc) resultPayload st2)"
  by (simp add: handleFunctionCallResponse_def Let_def)

section \<open>Properties of one page scan and of the bulk scan\<close>




lemma scan_begin_fst: "fst (scan_begin env url st) = scanPage env (trace st) url"
  by (simp add: scan_begin_def Let_def)

lemma scan_begin_snd:
  "snd (scan_begin env url st) =
     st\<lparr>discoveredLinks := updateLinkStatus url Scanning no_patch (discoveredLinks st),
        trace := trace st @ [EvScanPage url]\<rparr>"
  by (simp add: scan_begin_def Let_def log_event_def)

lemma scan_settle_fields:
  "trace (scan_settle url r st) = trace st"
  "controllers (scan_settle url r st) = controllers st"
  "fullScanAbortController (scan_settle url r st) = fullScanAbortController st"
  "chatRef (scan_settle url r st) = chatRef st"
  "chatHistory (scan_settle url r st) = chatHistory st"
  by (simp_all add: scan_settle_def split: sum.splits)


lemma handleStopFullScan_fields:
  "trace (handleStopFullScan st) = trace st"
  "discoveredLinks (handleStopFullScan st) = discoveredLinks st"
  "discoveredAssets (handleStopFullScan st) = discoveredAssets st"
  "chatRef (handleStopFullScan st) = chatRef st"
  "chatHistory (handleStopFullScan st) = chatHistory st"
  "fullScanAbortController (handleStopFullScan st) = fullScanAbortController st"
  "length (controllers (handleStopFullScan st)) = length (controllers st)"
  by (simp_all add: handleStopFullScan_def Let_def split: option.splits)

lemma fullScanLoop_Cons:
  "fullScanLoop env c (url # rest) st =
     (if aborted st c then st else fullScanLoop env c rest (full_iter env url st))"
  by (simp add: full_iter_def scan_begin_def Let_def log_event_def)

declare fullScanLoop.simps(2) [simp del]











lemma handleFullScan_unfold:
  "handleFullScan env ai st =
     (fullScanLoop env (length (controllers st)) (pendingUrls (discoveredLinks st))
        (startFullScan ai st))\<lparr>isFullScanning := False\<rparr>"
  by (simp add: handleFullScan_def Let_def)

lemma startFullScan_fields:
  "trace (startFullScan ai st) = trace st"
  "discoveredLinks (startFullScan ai st) = discoveredLinks st"
  "discoveredAssets (startFullScan ai st) = discoveredAssets st"
  "chatRef (startFullScan ai st) = chatRef st"
  "chatHistory (startFullScan ai st) = chatHistory st"
  "controllers (startFullScan ai st) = controllers st @ [False]"
  "fullScanAbortController (startFullScan ai st) = Some (length (controllers st))"
  by (simp_all add: startFullScan_def Let_def)






section \<open>Properties of the interleaved handlers\<close>

lemma scan_begin_controllers: "controllers (snd (scan_begin env url st)) = controllers st"
  by (simp add: scan_begin_snd)

lemma aborted_cong: "controllers st' = controllers st \<Longrightarrow> aborted st' c = aborted st c"
  by (simp add: aborted_def)

lemma aborted_handleStopFullScan: "aborted st c \<Longrightarrow> aborted (handleStopFullScan st) c"
proof (cases "fullScanAbortController st")
  case None
  assume "aborted st c"
  then show ?thesis using None by (simp add: aborted_def handleStopFullScan_def)
next
  case (Some a)
  assume "aborted st c"
  then have c: "c < length (controllers st)" "controllers st ! c"
    by (simp_all add: aborted_def)
  have "(controllers st)[a := True] ! c"
    using c by (cases "a = c") simp_all
  then show ?thesis using Some c by (simp add: aborted_def handleStopFullScan_def)
qed

lemma aborted_startFullScan: "aborted st c \<Longrightarrow> aborted (startFullScan ai st) c"
  by (simp add: aborted_def startFullScan_fields nth_append)

lemma begin_scans_fields:
  "controllers (snd (begin_scans env urls st)) = controllers st"
  by (induction urls arbitrary: st)
     (simp_all add: split_def Let_def scan_begin_controllers)

lemma resume_run_app_cases:
  "app (resume_run env i signal urls cs) =
     (case urls of
        [] \<Rightarrow> (app cs)\<lparr>isFullScanning := False\<rparr>
      | url # rest \<Rightarrow>
          (if aborted (app cs) signal then (app cs)\<lparr>isFullScanning := False\<rparr>
           else snd (scan_begin env url (app cs))))"
  by (simp add: resume_run_def split_def Let_def split: list.splits)


lemma aborted_resume_run:
  "aborted (app cs) c \<Longrightarrow> aborted (app (resume_run env i signal urls cs)) c"
  by (auto simp: resume_run_app_cases aborted_def scan_begin_controllers split: list.splits)

lemma aborted_step: "aborted (app cs) c \<Longrightarrow> aborted (app (step env a cs)) c"
proof (cases a)
  case (ActFullScan ai)
  assume "aborted (app cs) c"
  then show ?thesis
    by (simp add: ActFullScan aborted_resume_run aborted_startFullScan)
next
  case ActStop
  assume "aborted (app cs) c"
  then show ?thesis by (simp add: ActStop aborted_handleStopFullScan)
next
  case (ActScanPages urls)
  assume "aborted (app cs) c"
  then show ?thesis
    using begin_scans_fields[of env urls "app cs"]
    by (simp add: ActScanPages split_def Let_def aborted_def)
next
  case (ActSettle i)
  assume a: "aborted (app cs) c"
  show ?thesis
  proof (cases "i < length (tasks cs)")
    case False
    then show ?thesis using a by (simp add: ActSettle)
  next
    case True
    show ?thesis
    proof (cases "tasks cs ! i")
      case Finished
      then show ?thesis using True a by (simp add: ActSettle)
    next
      case (PageTask url r)
      then show ?thesis using True a by (simp add: ActSettle aborted_def scan_settle_fields)
    next
      case (FullScanTask signal url r rest)
      have "aborted (app (cs\<lparr>app := scan_settle url r (app cs)\<rparr>)) c"
        using a by (simp add: aborted_def scan_settle_fields)
      then have "aborted (app (resume_run env i signal rest
          (cs\<lparr>app := scan_settle url r (app cs)\<rparr>))) c"
        by (rule aborted_resume_run)
      then show ?thesis using True FullScanTask by (simp add: ActSettle)
    qed
  qed
qed



lemma run_Cons: "run env (a # acts) cs = run env acts (step env a cs)"
  by (simp add: run_def)

lemma aborted_run: "aborted (app cs) c \<Longrightarrow> aborted (app (run env acts cs)) c"
  by (induction acts arbitrary: cs) (simp_all add: run_def aborted_step)












declare step.simps [simp del]

section \<open>The handlers run alone are interleavings\<close>

text \<open>
  The bulk scan run from its call to its end is the interleaving in which, once it has
  started, only the stop button and its own scans take a turn (\<open>loop_schedule\<close>).
\<close>

lemma run_append: "run env (xs @ ys) cs = run env ys (run env xs cs)"
  by (simp add: run_def)

lemma run_Nil: "run env [] cs = cs"
  by (simp add: run_def)

lemma resume_run_tasks_length:
  "length (tasks (resume_run env i c urls cs)) = length (tasks cs)"
  by (simp add: resume_run_def split_def Let_def split: list.splits)

lemma loop_refines:
  assumes "i < length (tasks cs)"
  shows "app (run env (loop_schedule env i c urls (app cs)) (resume_run env i c urls cs))
     = (fullScanLoop env c urls (app cs))\<lparr>isFullScanning := False\<rparr>"
  using assms
proof (induction urls arbitrary: cs)
  case Nil
  then show ?case by (simp add: run_Nil resume_run_app_cases)
next
  case (Cons url rest)
  show ?case
  proof (cases "aborted (app cs) c")
    case True
    then show ?thesis
      by (simp add: run_Nil resume_run_app_cases fullScanLoop_Cons)
  next
    case False
    let ?r = "scanPage env (trace (app cs)) url"
    let ?st1 = "snd (scan_begin env url (app cs))"
    let ?cs1 = "cs\<lparr>app := ?st1, tasks := (tasks cs)[i := FullScanTask c url ?r rest],
      begun := begun cs @ [(BulkRun c, url)]\<rparr>"
    let ?stop = "stopClicked env (trace (app cs) @ [EvScanPage url])"
    let ?cs2 = "?cs1\<lparr>app := (if ?stop then handleStopFullScan ?st1 else ?st1)\<rparr>"
    let ?cs3 = "?cs2\<lparr>app := full_iter env url (app cs)\<rparr>"
    have r1: "resume_run env i c (url # rest) cs = ?cs1"
      using False by (simp add: resume_run_def split_def Let_def scan_begin_fst)
    have r2: "run env (if ?stop then [ActStop] else []) ?cs1 = ?cs2"
      by (simp add: run_def step.simps)
    have t: "i < length (tasks ?cs2)" "tasks ?cs2 ! i = FullScanTask c url ?r rest"
      using Cons.prems by simp_all
    have r3: "step env (ActSettle i) ?cs2 = resume_run env i c rest ?cs3"
      using t by (simp add: step.simps full_iter_def)
    have len: "i < length (tasks ?cs3)" using Cons.prems by simp
    have a3: "app ?cs3 = full_iter env url (app cs)" by simp
    have "run env (loop_schedule env i c (url # rest) (app cs)) (resume_run env i c (url # rest) cs)
        = run env (loop_schedule env i c rest (full_iter env url (app cs)))
            (resume_run env i c rest ?cs3)"
      using False
      by (simp only: loop_schedule.simps if_False run_append r1 r2 run_Cons run_Nil r3)
    then show ?thesis
      using Cons.IH[OF len] False by (simp only: a3 fullScanLoop_Cons if_False)
  qed
qed

lemma handleFullScan_is_a_run:
  "handleFullScan env ai st
     = app (run env
         (ActFullScan ai # loop_schedule env 0 (length (controllers st))
            (pendingUrls (discoveredLinks st)) (startFullScan ai st))
         (idle st))"
proof -
  let ?cs = "(idle st)\<lparr>app := startFullScan ai st, tasks := tasks (idle st) @ [Finished]\<rparr>"
  have s: "step env (ActFullScan ai) (idle st)
      = resume_run env 0 (length (controllers st)) (pendingUrls (discoveredLinks st)) ?cs"
    by (simp add: step.simps idle_def)
  have "0 < length (tasks ?cs)" by (simp add: idle_def)
  from loop_refines[OF this, of env "length (controllers st)" "pendingUrls (discoveredLinks st)"]
  show ?thesis
    by (simp add: run_Cons s handleFullScan_unfold)
qed

text \<open>
  The fan-out of \<open>scanPages\<close> is the interleaving in which its scans settle one after the
  other in the order the environment gives.
\<close>

lemma begin_scans_length: "length (fst (begin_scans env urls st)) = length urls"
  by (induction urls arbitrary: st) (simp_all add: split_def Let_def)

lemma settle_refines:
  assumes "distinct order"
    and "\<forall>i \<in> set order. i < length T \<and> i < length (tasks cs)
           \<and> tasks cs ! i = PageTask (fst (T ! i)) (snd (T ! i))"
  shows "app (run env (map ActSettle order) cs) = settle_scans T order (app cs)"
  using assms
proof (induction order arbitrary: cs)
  case Nil
  then show ?case by (simp add: run_Nil settle_scans_def)
next
  case (Cons i order)
  let ?cs1 = "cs\<lparr>app := scan_settle (fst (T ! i)) (snd (T ! i)) (app cs),
    tasks := (tasks cs)[i := Finished]\<rparr>"
  have i: "i < length T" "i < length (tasks cs)"
    "tasks cs ! i = PageTask (fst (T ! i)) (snd (T ! i))"
    using Cons.prems(2) by simp_all
  have s: "step env (ActSettle i) cs = ?cs1"
    using i by (simp add: step.simps)
  have d: "distinct order" and ni: "i \<notin> set order" using Cons.prems(1) by simp_all
  have rest: "\<forall>j \<in> set order. j < length T \<and> j < length (tasks ?cs1)
           \<and> tasks ?cs1 ! j = PageTask (fst (T ! j)) (snd (T ! j))"
  proof
    fix j
    assume j: "j \<in> set order"
    then have "j \<noteq> i" using ni by auto
    moreover have "j < length T \<and> j < length (tasks cs)
        \<and> tasks cs ! j = PageTask (fst (T ! j)) (snd (T ! j))"
      using Cons.prems(2) j by simp
    ultimately show "j < length T \<and> j < length (tasks ?cs1)
        \<and> tasks ?cs1 ! j = PageTask (fst (T ! j)) (snd (T ! j))"
      by simp
  qed
  have "app (run env (map ActSettle order) ?cs1) = settle_scans T order (app ?cs1)"
    using Cons.IH[OF d rest] .
  then show ?case
    using i(1) by (simp add: run_Cons s settle_scans_def)
qed

lemma settle_order_is_a_permutation:
  "distinct (settle_order env tr n) \<and> set (settle_order env tr n) = {0..<n}"
proof (cases "sort (settleOrder env tr) = [0..<n]")
  case True
  have "distinct (sort (settleOrder env tr))" using True by simp
  then have "distinct (settleOrder env tr)" by (simp only: distinct_sort)
  moreover have "set (settleOrder env tr) = set (sort (settleOrder env tr))" by simp
  ultimately show ?thesis using True by (simp add: settle_order_def Let_def)
next
  case False
  then show ?thesis by (simp add: settle_order_def Let_def)
qed

lemma scanPages_is_a_run:
  "snd (scanPages env urls st)
     = app (run env
         (ActScanPages urls
            # map ActSettle (settle_order env (trace (snd (begin_scans env urls st))) (length urls)))
         (idle st))"
proof -
  let ?rs = "fst (begin_scans env urls st)"
  let ?st1 = "snd (begin_scans env urls st)"
  let ?T = "zip urls ?rs"
  let ?order = "settle_order env (trace ?st1) (length urls)"
  let ?cs1 = "\<lparr>app = ?st1, tasks = map (\<lambda>(scanUrl, r). PageTask scanUrl r) ?T,
    begun = map (\<lambda>scanUrl. (Fanout, scanUrl)) urls\<rparr>"
  have len: "length ?T = length urls" by (simp add: begin_scans_length)
  have s: "step env (ActScanPages urls) (idle st) = ?cs1"
    by (simp add: step.simps idle_def split_def Let_def)
  have perm: "distinct ?order" "set ?order = {0..<length urls}"
    using settle_order_is_a_permutation[of env "trace ?st1" "length urls"] by simp_all
  have ok: "\<forall>i \<in> set ?order. i < length ?T \<and> i < length (tasks ?cs1)
           \<and> tasks ?cs1 ! i = PageTask (fst (?T ! i)) (snd (?T ! i))"
    using perm(2) len by (auto simp: split_def)
  have "app (run env (map ActSettle ?order) ?cs1) = settle_scans ?T ?order (app ?cs1)"
    using settle_refines[OF perm(1) ok] .
  then show ?thesis
    by (simp add: run_Cons s scanPages_def split_def Let_def begin_scans_length)
qed

text \<open>
  The call a manual re-scan builds is none of the transcript's, so the filter of line 137
  removes nothing; the re-scan then changes the frontier as the \<open>scanPages\<close> fan-out of
  its one URL does, so as the interleaving that starts the fan-out and lets its scan
  settle.
\<close>

lemma fold_max_ident:
  "n \<le> fold (\<lambda>msg n. case msg of
                          FunctionCallMessage (Some g) \<Rightarrow> max (fc_ident g) n
                        | _ \<Rightarrow> n) history n
   \<and> (\<forall>g. FunctionCallMessage (Some g) \<in> set history \<longrightarrow>
         fc_ident g \<le> fold (\<lambda>msg n. case msg of
                          FunctionCallMessage (Some g) \<Rightarrow> max (fc_ident g) n
                        | _ \<Rightarrow> n) history n)"
proof (induction history arbitrary: n)
  case Nil
  then show ?case by simp
next
  case (Cons msg history)
  let ?f = "\<lambda>msg n. case msg of
                          FunctionCallMessage (Some g) \<Rightarrow> max (fc_ident g) n
                        | _ \<Rightarrow> n"
  have step: "n \<le> ?f msg n"
    by (simp split: ChatMessage.splits option.splits)
  have here: "fc_ident g \<le> ?f msg n" if "msg = FunctionCallMessage (Some g)" for g
    using that by simp
  show ?case
    using Cons.IH[of "?f msg n"] step here
    by (auto intro: order_trans)
qed

lemma fresh_call_is_kept:
  "fc_ident fc = fresh_ident history \<Longrightarrow> filter (keeps (Some fc)) history = history"
proof -
  assume f: "fc_ident fc = fresh_ident history"
  have "keeps (Some fc) msg" if "msg \<in> set history" for msg
  proof (cases msg)
    case (TextMessage t s)
    then show ?thesis by (simp add: keeps_def)
  next
    case (FunctionCallMessage g)
    show ?thesis
    proof (cases g)
      case None
      then show ?thesis using FunctionCallMessage by (simp add: keeps_def same_object_def)
    next
      case (Some x)
      then have "fc_ident x < fresh_ident history"
        using fold_max_ident[of 0 history] that FunctionCallMessage
        by (auto simp: fresh_ident_def less_Suc_eq_le)
      then show ?thesis
        using f FunctionCallMessage Some by (simp add: keeps_def same_object_def)
    qed
  qed
  then show ?thesis by (simp add: filter_id_conv)
qed

lemma dispatch_scanPages:
  "fc_name fc = Some ''scanPages'' \<Longrightarrow> fc_args fc = Some args \<Longrightarrow>
   arg_urls args = Some urls \<Longrightarrow>
   dispatch env fc st = (Inr (fst (scanPages env urls st)), snd (scanPages env urls st))"
  by (simp add: dispatch_def split_def Let_def)

lemma onManualScan_frontier:
  "discoveredLinks (snd (onManualScan env url st))
     = discoveredLinks (app (run env [ActScanPages [url], ActSettle 0] (idle st)))"
proof -
  let ?fc = "\<lparr>fc_ident = fresh_ident (chatHistory st), fc_name = Some ''scanPages'',
      fc_args = Some \<lparr>arg_urls = Some [url], arg_url = None, arg_dataType = None,
        arg_prompt = None\<rparr>\<rparr>"
  have same: "st\<lparr>chatHistory := filter (keeps (Some ?fc)) (chatHistory st)\<rparr> = st"
    using fresh_call_is_kept[of ?fc "chatHistory st"] by simp
  have order: "settle_order env tr (Suc 0) = [0]" for tr
  proof -
    have "set (settle_order env tr (Suc 0)) = {0}" and "distinct (settle_order env tr (Suc 0))"
      using settle_order_is_a_permutation[of env tr "Suc 0"] by simp_all
    then show ?thesis
    proof (cases "settle_order env tr (Suc 0)")
      case Nil
      assume "set (settle_order env tr (Suc 0)) = {0}"
      then show ?thesis using Nil by simp
    next
      case (Cons x xs)
      assume s: "set (settle_order env tr (Suc 0)) = {0}" and d: "distinct (settle_order env tr (Suc 0))"
      have x: "x = 0" using s Cons by auto
      have "set xs \<subseteq> {0}" using s Cons by auto
      moreover have "0 \<notin> set xs" using d Cons x by simp
      ultimately have "xs = []" by (cases xs) auto
      then show ?thesis using Cons x by simp
    qed
  qed
  have "discoveredLinks (snd (onManualScan env url st))
      = discoveredLinks (snd (scanPages env [url] st))"
    using send_result_frontier
    by (simp add: onManualScan_def handle_approved dispatch_scanPages same)
  then show ?thesis
    by (simp add: scanPages_is_a_run order)
qed

section \<open>Invariants of the frontier and of the controllers\<close>

lemma pending_have_url_put:
  "pending_have_url m \<Longrightarrow> (l_status v = Pending \<longrightarrow> l_url v = Some k) \<Longrightarrow>
   pending_have_url (map_put k v m)"
  by (induction m) (auto simp: pending_have_url_def)

lemma pending_have_url_registerLink:
  "pending_have_url m \<Longrightarrow> pending_have_url (registerLink u m)"
  by (simp add: registerLink_def pending_have_url_put pending_link_def)

lemma pending_have_url_registerDiscoveredLinks:
  "pending_have_url m \<Longrightarrow> pending_have_url (registerDiscoveredLinks ls m)"
  by (induction ls arbitrary: m)
     (simp_all add: registerDiscoveredLinks_def pending_have_url_registerLink)

lemma pending_have_url_updateLinkStatus:
  "pending_have_url m \<Longrightarrow> p_status data = None \<Longrightarrow> s \<noteq> Pending \<Longrightarrow>
   pending_have_url (updateLinkStatus url s data m)"
  by (simp add: updateLinkStatus_def pending_have_url_put merge_link_def)

lemma pending_have_url_seed_links: "pending_have_url (seed_links url res)"
proof -
  have "pending_have_url (map_put url v [])" if "l_status v = Scanned" for v :: DiscoveredLink
    using that by (simp add: pending_have_url_def)
  then show ?thesis
    by (simp add: seed_links_def Let_def pending_have_url_registerDiscoveredLinks
        del: map_put.simps)
qed

lemma pending_have_url_scan_begin:
  "pending_have_url (discoveredLinks st) \<Longrightarrow>
   pending_have_url (discoveredLinks (snd (scan_begin env url st)))"
  by (simp add: scan_begin_snd pending_have_url_updateLinkStatus no_patch_def)

lemma pending_have_url_scan_settle:
  "pending_have_url (discoveredLinks st) \<Longrightarrow>
   pending_have_url (discoveredLinks (scan_settle url r st))"
  by (cases r)
     (simp_all add: scan_settle_def pending_have_url_updateLinkStatus no_patch_def
       content_patch_def pending_have_url_registerDiscoveredLinks)

lemma pending_have_url_begin_scans:
  "pending_have_url (discoveredLinks st) \<Longrightarrow>
   pending_have_url (discoveredLinks (snd (begin_scans env urls st)))"
  by (induction urls arbitrary: st)
     (simp_all add: split_def Let_def pending_have_url_scan_begin)

lemma pending_have_url_resume_run:
  "pending_have_url (discoveredLinks (app cs)) \<Longrightarrow>
   pending_have_url (discoveredLinks (app (resume_run env i c urls cs)))"
  by (auto simp: resume_run_app_cases pending_have_url_scan_begin split: list.splits)

lemma pending_have_url_step:
  assumes "pending_have_url (discoveredLinks (app cs))"
  shows "pending_have_url (discoveredLinks (app (step env a cs)))"
proof (cases a)
  case (ActFullScan ai)
  have "pending_have_url (discoveredLinks (app (cs\<lparr>app := startFullScan ai (app cs),
      tasks := tasks cs @ [Finished]\<rparr>)))"
    using assms by (simp add: startFullScan_fields)
  then show ?thesis
    unfolding ActFullScan step.simps by (rule pending_have_url_resume_run)
next
  case ActStop
  then show ?thesis using assms by (simp add: step.simps handleStopFullScan_fields)
next
  case (ActScanPages urls)
  then show ?thesis
    using pending_have_url_begin_scans[OF assms, of env urls]
    by (simp add: step.simps split_def Let_def)
next
  case (ActSettle i)
  show ?thesis
  proof (cases "i < length (tasks cs)")
    case False
    then show ?thesis using assms by (simp add: ActSettle step.simps)
  next
    case True
    show ?thesis
    proof (cases "tasks cs ! i")
      case Finished
      then show ?thesis using True assms by (simp add: ActSettle step.simps)
    next
      case (PageTask url r)
      then show ?thesis
        using True assms by (simp add: ActSettle step.simps pending_have_url_scan_settle)
    next
      case (FullScanTask c url r rest)
      have "pending_have_url (discoveredLinks (app (cs\<lparr>app := scan_settle url r (app cs)\<rparr>)))"
        using assms by (simp add: pending_have_url_scan_settle)
      then have "pending_have_url (discoveredLinks (app (resume_run env i c rest
          (cs\<lparr>app := scan_settle url r (app cs)\<rparr>))))"
        by (rule pending_have_url_resume_run)
      then show ?thesis using True FullScanTask by (simp add: ActSettle step.simps)
    qed
  qed
qed

lemma pending_have_url_run:
  "pending_have_url (discoveredLinks (app cs)) \<Longrightarrow>
   pending_have_url (discoveredLinks (app (run env acts cs)))"
  by (induction acts arbitrary: cs) (simp_all add: run_Nil run_Cons pending_have_url_step)

text \<open>
  On such a frontier the URLs of the pending records are the keys of the pending
  records, in the order of the map: the model of lines 243-245 leaves nothing out.
\<close>

lemma pendingUrls_are_keys:
  "pending_have_url links \<Longrightarrow>
   pendingUrls links = map fst (filter (\<lambda>(k, l). l_status l = Pending) links)"
  by (induction links)
     (auto simp: pending_have_url_def pendingUrls_def map_values_def)

lemma pending_have_url_handleInitialScan:
  "pending_have_url (discoveredLinks st) \<Longrightarrow>
   pending_have_url (discoveredLinks (handleInitialScan env url st))"
  by (auto simp: handleInitialScan_def Let_def log_event_def catch_initial_def
      processStreamAndAddMessages_def fold_addMessage pending_have_url_seed_links
      split: sum.splits option.splits prod.splits Outcome.splits)

lemma ref_ok_cong:
  "fullScanAbortController st' = fullScanAbortController st \<Longrightarrow>
   controllers st' = controllers st \<Longrightarrow> ref_ok st' = ref_ok st"
  by (simp add: ref_ok_def split: option.splits)

lemma ref_ok_scan_begin: "ref_ok (snd (scan_begin env url st)) = ref_ok st"
  by (rule ref_ok_cong) (simp_all add: scan_begin_snd)

lemma ref_ok_scan_settle: "ref_ok (scan_settle url r st) = ref_ok st"
  by (rule ref_ok_cong) (simp_all add: scan_settle_fields)

lemma ref_ok_begin_scans: "ref_ok (snd (begin_scans env urls st)) = ref_ok st"
  by (induction urls arbitrary: st) (simp_all add: split_def Let_def ref_ok_scan_begin)

lemma ref_ok_handleStopFullScan: "ref_ok st \<Longrightarrow> ref_ok (handleStopFullScan st)"
  by (simp add: ref_ok_def handleStopFullScan_fields split: option.splits)

lemma ref_ok_resume_run:
  "ref_ok (app cs) \<Longrightarrow> ref_ok (app (resume_run env i c urls cs))"
proof -
  have "ref_ok (st\<lparr>isFullScanning := False\<rparr>) = ref_ok st" for st
    by (rule ref_ok_cong) simp_all
  then show "ref_ok (app cs) \<Longrightarrow> ref_ok (app (resume_run env i c urls cs))"
    by (simp add: resume_run_app_cases ref_ok_scan_begin split: list.splits)
qed

lemma ref_ok_step: "ref_ok (app cs) \<Longrightarrow> ref_ok (app (step env a cs))"
proof (cases a)
  case (ActFullScan ai)
  have "ref_ok (startFullScan ai (app cs))"
    by (simp add: ref_ok_def startFullScan_fields)
  then show ?thesis by (simp add: ActFullScan step.simps ref_ok_resume_run)
next
  case ActStop
  assume "ref_ok (app cs)"
  then show ?thesis by (simp add: ActStop step.simps ref_ok_handleStopFullScan)
next
  case (ActScanPages urls)
  assume "ref_ok (app cs)"
  then show ?thesis
    by (simp add: ActScanPages step.simps split_def Let_def ref_ok_begin_scans)
next
  case (ActSettle i)
  assume r: "ref_ok (app cs)"
  show ?thesis
  proof (cases "i < length (tasks cs)")
    case False
    then show ?thesis using r by (simp add: ActSettle step.simps)
  next
    case True
    show ?thesis
    proof (cases "tasks cs ! i")
      case Finished
      then show ?thesis using True r by (simp add: ActSettle step.simps)
    next
      case (PageTask url r')
      then show ?thesis using True r by (simp add: ActSettle step.simps ref_ok_scan_settle)
    next
      case (FullScanTask c url r' rest)
      have "ref_ok (app (cs\<lparr>app := scan_settle url r' (app cs)\<rparr>))"
        using r by (simp add: ref_ok_scan_settle)
      then have "ref_ok (app (resume_run env i c rest (cs\<lparr>app := scan_settle url r' (app cs)\<rparr>)))"
        by (rule ref_ok_resume_run)
      then show ?thesis using True FullScanTask by (simp add: ActSettle step.simps)
    qed
  qed
qed

lemma ref_ok_run: "ref_ok (app cs) \<Longrightarrow> ref_ok (app (run env acts cs))"
  by (induction acts arbitrary: cs) (simp_all add: run_Nil run_Cons ref_ok_step)

section \<open>The moves of a status when the scans of its URL do not overlap\<close>




lemma in_flight_app [simp]: "in_flight (cs\<lparr>app := st\<rparr>) k = in_flight cs k"
  by (simp add: in_flight_def)

lemma in_flight_begun [simp]: "in_flight (cs\<lparr>begun := b\<rparr>) k = in_flight cs k"
  by (simp add: in_flight_def)








section \<open>The example state is reached\<close>

lemma seeded_is_reached:
  "handleInitialScan example_env ''https://a.test/'' initial_state = seeded"
  by (simp add: handleInitialScan_def initial_state_def example_env_def site_def Let_def
    log_event_def seed_links_def registerDiscoveredLinks_def registerLink_def map_has_def
    home_page_def addDiscoveredAssets_def addAsset_def logo_from_home_def seeded_def
    home_scanned_def page_summary_def map_values_def opt_field_def status_name_def
    pending_link_def processStreamAndAddMessages_def accumulate_def add_chunk_def
    chunk_parts_def text_chunk_def add_part_def truthy_def turns_of_def trim_def is_space_def
    addMessage_def)

lemma seeded_ok: "pending_have_url (discoveredLinks seeded) \<and> ref_ok seeded"
  by (simp add: seeded_def pending_have_url_def pending_link_def home_scanned_def ref_ok_def)

text \<open>
  The seventh scenario of the specification: from the seeded frontier, an approved
  \<open>scanPages\<close> call on one pending page makes it \<open>scanned\<close>, adds the page's new link as
  \<open>pending\<close>, and leaves the other pending page as it is.
\<close>

lemma scenario_scanPages_about:
  "map (\<lambda>(k, l). (k, l_status l))
     (discoveredLinks (snd (handleFunctionCallResponse example_env True
        (Some (call_of 2 ''scanPages''
           (Some \<lparr>arg_urls = Some [''https://a.test/about''], arg_url = None,
                   arg_dataType = None, arg_prompt = None\<rparr>))) seeded)))
     = [(''https://a.test/'', Scanned), (''https://a.test/about'', Scanned),
        (''https://a.test/blog'', Pending), (''https://a.test/team'', Pending)]"
  by (simp add: handleFunctionCallResponse_def dispatch_def call_of_def seeded_def
      scanPages_def scan_begin_def scan_settle_def settle_scans_def settle_order_def
      updateLinkStatus_def merge_link_def no_patch_def content_patch_def spread_def
      log_event_def example_env_def site_def about_page_def registerDiscoveredLinks_def
      registerLink_def map_has_def addDiscoveredAssets_def addAsset_def logo_from_about_def
      flyer_from_about_def logo_from_home_def send_result_def home_scanned_def
      pending_link_def processStreamAndAddMessages_def fold_addMessage keeps_def Let_def)

section \<open>The claims\<close>

subsection \<open>Registration of links and assets\<close>

text \<open>
  Claim C8. Registering the outbound links of a page leaves every record that is
  already in the link mapping as it is, in place; a URL that is not yet a key gets the
  pending record with the placeholder title; registering the same links twice is the same
  as registering them once. This holds where a scan settles (in \<open>scanPages\<close> and in the
  bulk scan) for every URL other than the page scanned, and in the map the seed scan
  builds, where the seed's own record stays \<open>scanned\<close> when the page links to itself.
\<close>

theorem registerDiscoveredLinks_idempotent:
  "(\<exists>new. registerDiscoveredLinks links prev = prev @ new)
   \<and> (\<forall>k. map_has prev k \<longrightarrow>
          map_get (registerDiscoveredLinks links prev) k = map_get prev k)
   \<and> (\<forall>k. \<not> map_has prev k \<longrightarrow>
          map_get (registerDiscoveredLinks links prev) k
          = (if k \<in> set links then Some (pending_link k) else None))
   \<and> registerDiscoveredLinks links (registerDiscoveredLinks links prev)
       = registerDiscoveredLinks links prev
   \<and> (\<forall>k. k \<noteq> url \<and> map_has (discoveredLinks st) k \<longrightarrow>
          map_get (discoveredLinks (scan_settle url (Inr res) st)) k
          = map_get (discoveredLinks st) k)
   \<and> map_option l_status (map_get (seed_links url res) url) = Some Scanned"
  by (simp add: registerDiscoveredLinks_prefix map_get_registerDiscoveredLinks
      registerDiscoveredLinks_twice scan_settle_keeps_others seed_links_seed)

theorem registerDiscoveredLinks_idempotent_witness:
  "map_has home_only ''https://a.test/''
   \<and> map_get (registerDiscoveredLinks [''https://a.test/'', ''https://a.test/about''] home_only)
        ''https://a.test/'' = Some home_scanned
   \<and> \<not> map_has home_only ''https://a.test/about''
   \<and> map_get (registerDiscoveredLinks [''https://a.test/'', ''https://a.test/about''] home_only)
        ''https://a.test/about''
       = Some \<lparr>l_url = Some ''https://a.test/about'', l_status = Pending,
               l_title = Some ''Unknown Title'', l_textContent = None, l_htmlContent = None\<rparr>
   \<and> map_has (discoveredLinks seeded) ''https://a.test/''
   \<and> map_get (discoveredLinks (scan_settle ''https://a.test/about'' (Inr about_page) seeded))
        ''https://a.test/'' = Some home_scanned"
  using registerDiscoveredLinks_idempotent
    [of "[''https://a.test/'', ''https://a.test/about'']" home_only
        "''https://a.test/about''" seeded about_page]
  by (simp add: home_only_def map_has_def pending_link_def seeded_def)

text \<open>
  Claim C9. Adding the assets of a page leaves every record that is already in the
  asset mapping as it is, in place, whatever the kind and the source page of the asset
  registered again; a URL that is not yet a key gets the first asset of the batch with
  that URL.
\<close>

theorem addDiscoveredAssets_first_write_wins:
  "(\<exists>new. addDiscoveredAssets assets prev = prev @ new)
   \<and> (\<forall>k. map_has prev k \<longrightarrow> map_get (addDiscoveredAssets assets prev) k = map_get prev k)
   \<and> (\<forall>k. \<not> map_has prev k \<longrightarrow>
          map_get (addDiscoveredAssets assets prev) k = find (\<lambda>a. a_url a = k) assets)"
  by (simp add: addDiscoveredAssets_prefix map_get_addDiscoveredAssets)

theorem addDiscoveredAssets_first_write_wins_witness:
  "map_has [(''https://a.test/logo.png'', logo_from_home)] ''https://a.test/logo.png''
   \<and> map_get (addDiscoveredAssets [logo_from_about, flyer_from_about]
                 [(''https://a.test/logo.png'', logo_from_home)]) ''https://a.test/logo.png''
       = Some logo_from_home
   \<and> \<not> map_has [(''https://a.test/logo.png'', logo_from_home)] ''https://a.test/flyer.pdf''
   \<and> map_get (addDiscoveredAssets [logo_from_about, flyer_from_about]
                 [(''https://a.test/logo.png'', logo_from_home)]) ''https://a.test/flyer.pdf''
       = Some flyer_from_about"
  using addDiscoveredAssets_first_write_wins
    [of "[logo_from_about, flyer_from_about]" "[(''https://a.test/logo.png'', logo_from_home)]"]
  by (simp add: map_has_def logo_from_about_def flyer_from_about_def)

subsection \<open>The status update on an unknown URL\<close>

text \<open>
  Claim C6, as the specification states it, fails: the status update does not test
  whether the URL is a key. On a frontier that holds the home page only, marking another
  URL \<open>failed\<close> changes the mapping: it adds an entry for that URL.
\<close>

theorem updateLinkStatus_unknown_url_counterexample:
  "\<not> map_has home_only ''https://a.test/about''
   \<and> updateLinkStatus ''https://a.test/about'' Failed no_patch home_only \<noteq> home_only
   \<and> map_get (updateLinkStatus ''https://a.test/about'' Failed no_patch home_only)
         ''https://a.test/about''
       = Some \<lparr>l_url = None, l_status = Failed, l_title = None, l_textContent = None,
               l_htmlContent = None\<rparr>"
  by (simp add: home_only_def map_has_def updateLinkStatus_def merge_link_def no_patch_def
      spread_def)

text \<open>
  Claim C6, amended. For a URL that is not a key of the link mapping the status update
  does not fail: it appends an entry under that URL, built from the given status and
  the patch alone, and leaves every other entry as it is.
\<close>

theorem updateLinkStatus_unknown_url_inserts:
  "\<not> map_has prev url \<Longrightarrow>
   updateLinkStatus url st data prev = prev @ [(url, merge_link None st data)]
   \<and> map_has (updateLinkStatus url st data prev) url
   \<and> (\<forall>k. k \<noteq> url \<longrightarrow> map_get (updateLinkStatus url st data prev) k = map_get prev k)"
proof (intro conjI allI impI)
  assume absent: "\<not> map_has prev url"
  show "updateLinkStatus url st data prev = prev @ [(url, merge_link None st data)]"
    using absent by (rule updateLinkStatus_absent)
  show "map_has (updateLinkStatus url st data prev) url"
    by (simp add: map_has_def map_get_updateLinkStatus)
next
  fix k
  assume "k \<noteq> url"
  then show "map_get (updateLinkStatus url st data prev) k = map_get prev k"
    by (simp add: map_get_updateLinkStatus)
qed

theorem updateLinkStatus_unknown_url_inserts_witness:
  "\<not> map_has home_only ''https://a.test/about''
   \<and> updateLinkStatus ''https://a.test/about'' Failed no_patch home_only
       = home_only @ [(''https://a.test/about'', merge_link None Failed no_patch)]
   \<and> map_get (updateLinkStatus ''https://a.test/about'' Failed no_patch home_only)
         ''https://a.test/'' = Some home_scanned"
  using updateLinkStatus_unknown_url_inserts
    [of home_only "''https://a.test/about''" Failed no_patch]
  by (simp add: home_only_def map_has_def)

subsection \<open>The turn accumulator\<close>




subsection \<open>The seed scan that fails\<close>

text \<open>
  Claim C4. When the scan of the seed URL fails, the handler ends in the input stage
  with an error to show (the message thrown, or a default when there is none), and the
  link mapping, the asset mapping and the transcript are what they were before; nothing
  is sent to the planner. What is left of the attempt is the error, the URL noted as
  current and the chat session created before the scan.
\<close>

theorem handleInitialScan_seed_failure:
  assumes "scanPage env (trace st @ [EvCreateChatSession]) url = Inl e"
  shows "handleInitialScan env url st
     = st\<lparr>status := StInput,
          error := Some (case err_message e of
                           Some m \<Rightarrow> (if m \<noteq> [] then m else unknown_scan_error)
                         | None \<Rightarrow> unknown_scan_error),
          chatRef := Some (length (filter (\<lambda>ev. ev = EvCreateChatSession) (trace st))),
          currentUrlRef := url,
          trace := trace st @ [EvCreateChatSession, EvScanPage url]\<rparr>
   \<and> status (handleInitialScan env url st) = StInput
   \<and> error (handleInitialScan env url st) \<noteq> None
   \<and> discoveredLinks (handleInitialScan env url st) = discoveredLinks st
   \<and> discoveredAssets (handleInitialScan env url st) = discoveredAssets st
   \<and> chatHistory (handleInitialScan env url st) = chatHistory st"
  by (simp add: handleInitialScan_failure[OF assms])

theorem handleInitialScan_seed_failure_witness:
  "scanPage example_env (trace initial_state @ [EvCreateChatSession]) ''https://down.test/''
     = Inl (JsError (Some ''HTTP 404''))
   \<and> handleInitialScan example_env ''https://down.test/'' initial_state
     = initial_state\<lparr>error := Some ''HTTP 404'', chatRef := Some 0,
         currentUrlRef := ''https://down.test/'',
         trace := [EvCreateChatSession, EvScanPage ''https://down.test/'']\<rparr>"
  using handleInitialScan_seed_failure
    [of example_env initial_state "''https://down.test/''" "JsError (Some ''HTTP 404'')"]
  by (simp add: example_env_def site_def initial_state_def)

subsection \<open>Analysis of a page that has not been scanned\<close>

text \<open>
  Claim C5. When the link record of the URL is missing, or is not \<open>scanned\<close>, or has no
  markup (none, or the empty string), an approved \<open>extractDataFromPage\<close> or
  \<open>performSeoAnalysis\<close> call on it yields the payload \<open>{success: false, error: ...}\<close>
  that tells the planner to scan first. Nothing is thrown and the state is as before, so
  no analyzer has been called; all the handler then does is send this payload to the
  planner, its only call of a collaborator, when there is a session.
\<close>

theorem analysis_of_unscanned_page_fails:
  assumes "fc_name fc = Some ''extractDataFromPage'' \<or> fc_name fc = Some ''performSeoAnalysis''"
    and "fc_args fc = Some args"
    and "arg_url args = Some url"
    and "\<forall>l. map_get (discoveredLinks st) url = Some l \<longrightarrow>
           l_status l \<noteq> Scanned \<or> l_htmlContent l = None \<or> l_htmlContent l = Some []"
  shows "dispatch env fc st
     = (Inr (Stringified (JObject [(''success'', JBool False),
          (''error'', JString (''Page '' @ url
             @ '' has not been scanned yet. Please use scanPages first.''))])), st)
   \<and> handleFunctionCallResponse env True (Some fc) st
     = send_result env (fc_name fc) (failure_payload (not_scanned_error (Some url)))
         (st\<lparr>chatHistory := filter (keeps (Some fc)) (chatHistory st)\<rparr>)
   \<and> (\<forall>c. chatRef st = Some c \<longrightarrow>
         trace (snd (handleFunctionCallResponse env True (Some fc) st))
         = trace st @ [EvSendMessageStream c (FunctionResponse (fc_name fc)
             (failure_payload (not_scanned_error (Some url))))])"
proof -
  have none: "scanned_markup (discoveredLinks st) (arg_url args) = None"
    using assms(3,4) by (auto simp: scanned_markup_None_iff truthy_def split: option.splits)
  let ?st1 = "st\<lparr>chatHistory := filter (keeps (Some fc)) (chatHistory st)\<rparr>"
  have d: "dispatch env fc st'
      = (Inr (failure_payload (not_scanned_error (Some url))), st')"
    if "discoveredLinks st' = discoveredLinks st" for st'
    using dispatch_extract_not_scanned[OF assms(1,2), of st' env] none that assms(3) by simp
  have "trace (snd (handleFunctionCallResponse env True (Some fc) st))
      = trace st @ [EvSendMessageStream c (FunctionResponse (fc_name fc)
             (failure_payload (not_scanned_error (Some url))))]"
    if "chatRef st = Some c" for c
    using that d[of ?st1] send_result_trace[of ?st1 c env]
    by (simp add: handle_approved)
  moreover have "handleFunctionCallResponse env True (Some fc) st
     = send_result env (fc_name fc) (failure_payload (not_scanned_error (Some url))) ?st1"
    using d[of ?st1] by (simp add: handle_approved)
  ultimately show ?thesis
    using d[of st] by (simp add: failure_payload_def not_scanned_error_def render_def)
qed

theorem analysis_of_unscanned_page_fails_witness:
  "map_get (discoveredLinks seeded) ''https://a.test/about''
     = Some (pending_link ''https://a.test/about'')
   \<and> dispatch example_env
        (call_of 3 ''performSeoAnalysis'' (Some (url_args ''https://a.test/about''))) seeded
     = (Inr (Stringified (JObject [(''success'', JBool False),
          (''error'', JString ''Page https://a.test/about has not been scanned yet. Please use scanPages first.'')])),
        seeded)"
proof -
  have "\<forall>l. map_get (discoveredLinks seeded) ''https://a.test/about'' = Some l \<longrightarrow>
           l_status l \<noteq> Scanned \<or> l_htmlContent l = None \<or> l_htmlContent l = Some []"
    by (simp add: seeded_def pending_link_def)
  then show ?thesis
    using analysis_of_unscanned_page_fails
      [of "call_of 3 ''performSeoAnalysis'' (Some (url_args ''https://a.test/about''))"
          "url_args ''https://a.test/about''" "''https://a.test/about''" seeded example_env]
    by (simp add: call_of_def url_args_def seeded_def)
qed

subsection \<open>A tool name the dispatch does not know\<close>




subsection \<open>The bulk scan started by the planner\<close>




subsection \<open>The status of a link\<close>




subsection \<open>Stopping a bulk scan\<close>




end
